theory Spec2Isabelle
  imports Main "HOL-Library.Word" "HOL-Library.Finite_Map"
begin

unbundle bit_operations_syntax

section \<open>Bytes, slices and errors\<close>

text \<open>
  The program is \<^verbatim>\<open>src/app/main.go\<close> (its first 638 lines: the forwarding DNS server).
  A Go \<^verbatim>\<open>byte\<close> is an 8-bit word, a \<^verbatim>\<open>uint16\<close> a 16-bit word. A Go \<^verbatim>\<open>string\<close> is an
  immutable sequence of bytes (\<^verbatim>\<open>len\<close> counts bytes, \<^verbatim>\<open>string(bs)\<close> and \<^verbatim>\<open>[]byte(s)\<close> copy
  the bytes unchanged), so a label is a list of bytes. Offsets are Go \<^verbatim>\<open>int\<close>s (64 bit) that
  start at 12 and only grow by at most 256 per step over a buffer of 512 bytes; they are
  natural numbers here.
\<close>

type_synonym byte = "8 word"
type_synonym uint16 = "16 word"
type_synonym gostring = "byte list"
type_synonym bytes2 = "byte \<times> byte"
type_synonym bytes4 = "byte \<times> byte \<times> byte \<times> byte"

text \<open>
  A Go slice \<^verbatim>\<open>[]byte\<close> has a length and a capacity. An index expression \<^verbatim>\<open>s[i]\<close> is
  checked against the length, a slice expression \<^verbatim>\<open>s[lo:hi]\<close> against the capacity. The
  server reads every datagram into a 512-byte buffer and decodes \<^verbatim>\<open>buf[:size]\<close>: a slice of
  length \<^verbatim>\<open>size\<close> and capacity 512. \<open>elems\<close> are the \<^verbatim>\<open>len(s)\<close> elements, \<open>slack\<close> the
  cells of the backing array between the length and the capacity.
\<close>

record goslice =
  elems :: "byte list"
  slack :: "byte list"

text \<open>
  The errors the program returns (by the text of their message), and the two run-time
  panics of Go that its unchecked reads can raise. The program has no \<^verbatim>\<open>recover\<close>: a panic
  ends the process.
\<close>

datatype error =
    InvalidHeader
  | InvalidLabelReference byte
  | LabelTooLong
  | LabelSeqTooLong
  | SendFailed
  | ReadFailed
  | ParseFailed
  | PanicIndexOutOfRange
  | PanicSliceBounds

fun is_panic :: "error \<Rightarrow> bool" where
  "is_panic PanicIndexOutOfRange = True"
| "is_panic PanicSliceBounds = True"
| "is_panic _ = False"

definition A :: uint16 where "A = 1"
definition IN :: uint16 where "IN = 1"
definition QUERY :: byte where "QUERY = 0"
definition UNIMPLEMENTED :: byte where "UNIMPLEMENTED = 4"

text \<open>\<^verbatim>\<open>binary.BigEndian.Uint16\<close>, \<^verbatim>\<open>PutUint16\<close> and \<^verbatim>\<open>PutUint32\<close> on fixed arrays.\<close>

definition Uint16 :: "bytes2 \<Rightarrow> uint16" where
  "Uint16 b = (push_bit 8 (ucast (fst b))) OR ucast (snd b)"

definition PutUint16 :: "uint16 \<Rightarrow> bytes2" where
  "PutUint16 v = (ucast (drop_bit 8 v), ucast v)"

definition PutUint32 :: "32 word \<Rightarrow> bytes4" where
  "PutUint32 v = (ucast (drop_bit 24 v), ucast (drop_bit 16 v), ucast (drop_bit 8 v), ucast v)"

fun list2 :: "bytes2 \<Rightarrow> byte list" where
  "list2 (a, b) = [a, b]"

fun list4 :: "bytes4 \<Rightarrow> byte list" where
  "list4 (a, b, c, d) = [a, b, c, d]"

section \<open>Label encoding\<close>

text \<open>
  \<^verbatim>\<open>encodeLabelSequence\<close>: the loop over the labels returns at the first label longer than
  63 bytes; the zero byte is appended after the loop and the total length checked last.
\<close>

fun encodeLabels_loop :: "gostring list \<Rightarrow> byte list \<Rightarrow> error + byte list" where
  "encodeLabels_loop [] enc = Inr enc"
| "encodeLabels_loop (label # labels) enc =
     (if length label > 63 then Inl LabelTooLong
      else encodeLabels_loop labels ((enc @ [of_nat (length label)]) @ label))"

definition encodeLabelSequence :: "gostring list \<Rightarrow> error + byte list" where
  "encodeLabelSequence labels =
     (case encodeLabels_loop labels [] of
        Inl e \<Rightarrow> Inl e
      | Inr enc \<Rightarrow>
          (let enc' = enc @ [0] in
           if length enc' > 255 then Inl LabelSeqTooLong else Inr enc'))"

section \<open>Cursor reads\<close>

text \<open>
  \<^verbatim>\<open>extractBytes\<close> is the slice expression \<^verbatim>\<open>src[*offset : *offset+length]\<close>: it panics when
  the upper bound is beyond the capacity, and otherwise yields the cells, also those past
  the length. \<^verbatim>\<open>extractUint16\<close> and \<^verbatim>\<open>extractUint32\<close> index the slice cell by cell and
  panic at the first index that is not below the length. Each returns the new offset.
\<close>

definition extractBytes :: "goslice \<Rightarrow> nat \<Rightarrow> nat \<Rightarrow> error + (byte list \<times> nat)" where
  "extractBytes src offset len =
     (if offset + len \<le> length (elems src) + length (slack src)
      then Inr (take len (drop offset (elems src @ slack src)), offset + len)
      else Inl PanicSliceBounds)"

definition extractUint16 :: "goslice \<Rightarrow> nat \<Rightarrow> error + (bytes2 \<times> uint16 \<times> nat)" where
  "extractUint16 src offset =
     (if offset + 1 < length (elems src)
      then (let result = (elems src ! offset, elems src ! (offset + 1))
            in Inr (result, Uint16 result, offset + 2))
      else Inl PanicIndexOutOfRange)"

definition extractUint32 :: "goslice \<Rightarrow> nat \<Rightarrow> error + (bytes4 \<times> nat)" where
  "extractUint32 src offset =
     (if offset + 3 < length (elems src)
      then Inr ((elems src ! offset, elems src ! (offset + 1),
                 elems src ! (offset + 2), elems src ! (offset + 3)), offset + 4)
      else Inl PanicIndexOutOfRange)"

section \<open>The label cache and label decoding\<close>

text \<open>
  The two Go maps of \<^verbatim>\<open>labelCache\<close> are finite maps. \<^verbatim>\<open>allSubsequentLabels\<close> is the
  unbounded \<^verbatim>\<open>for\<close> loop of the source: it is defined as a partial function, and that it
  returns is a theorem below, not an assumption of the definition.
\<close>

record labelCache =
  labelMap :: "(gostring, nat) fmap"
  positionMap :: "(nat, gostring) fmap"

partial_function (option) allSubsequentLabels_loop ::
  "(nat, gostring) fmap \<Rightarrow> nat \<Rightarrow> gostring list \<Rightarrow> gostring list option" where
  "allSubsequentLabels_loop pm head labels =
     (case fmlookup pm head of
        Some label \<Rightarrow> allSubsequentLabels_loop pm (head + (length label + 1)) (labels @ [label])
      | None \<Rightarrow> Some labels)"

declare allSubsequentLabels_loop.simps [code]

definition allSubsequentLabels :: "labelCache \<Rightarrow> nat \<Rightarrow> gostring list option" where
  "allSubsequentLabels c head = allSubsequentLabels_loop (positionMap c) head []"

text \<open>
  \<^verbatim>\<open>decodeLabels\<close>, also an unbounded loop. The cursor \<^verbatim>\<open>*head\<close> and the cache are passed in
  and returned. \<^verbatim>\<open>frame[*head]\<close> and \<^verbatim>\<open>frame[*head+1]\<close> are index expressions (checked against
  the length). An error return gives up the labels read so far, which no caller uses.
\<close>

partial_function (option) decodeLabels_loop ::
  "goslice \<Rightarrow> nat \<Rightarrow> labelCache \<Rightarrow> gostring list
     \<Rightarrow> (error + (gostring list \<times> nat \<times> labelCache)) option" where
  "decodeLabels_loop frame head cache labels =
     (if \<not> head < length (elems frame) then Some (Inl PanicIndexOutOfRange)
      else if elems frame ! head = 0 then Some (Inr (labels, head + 1, cache))
      else if elems frame ! head = 192 then
        (if \<not> head + 1 < length (elems frame) then Some (Inl PanicIndexOutOfRange)
         else
           (case allSubsequentLabels cache (unat (elems frame ! (head + 1))) of
              None \<Rightarrow> None
            | Some referencedLabels \<Rightarrow>
                if length referencedLabels = 0
                then Some (Inl (InvalidLabelReference (elems frame ! (head + 1))))
                else Some (Inr (labels @ referencedLabels, head + 2, cache))))
      else
        (case extractBytes frame (head + 1) (unat (elems frame ! head)) of
           Inl e \<Rightarrow> Some (Inl e)
         | Inr (label, head') \<Rightarrow>
             decodeLabels_loop frame head'
               (cache\<lparr>labelMap := fmupd label head (labelMap cache),
                      positionMap := fmupd head label (positionMap cache)\<rparr>)
               (labels @ [label])))"

declare decodeLabels_loop.simps [code]

definition decodeLabels ::
  "goslice \<Rightarrow> nat \<Rightarrow> labelCache \<Rightarrow> (error + (gostring list \<times> nat \<times> labelCache)) option" where
  "decodeLabels frame head cache = decodeLabels_loop frame head cache []"

section \<open>The header\<close>

text \<open>
  \<^verbatim>\<open>header.bytes\<close> is a \<^verbatim>\<open>[12]byte\<close> array: twelve cells, \<open>hb0\<close> to \<open>hb11\<close>. The setters
  are the source's, bit for bit: \<^verbatim>\<open>setQR\<close>, \<^verbatim>\<open>setAA\<close>, \<^verbatim>\<open>setTC\<close>, \<^verbatim>\<open>setRD\<close> and \<^verbatim>\<open>setRA\<close> OR
  their argument into the byte, \<^verbatim>\<open>setZ\<close> and \<^verbatim>\<open>setRCODE\<close> mask the field out first.
\<close>

record header =
  hb0 :: byte
  hb1 :: byte
  hb2 :: byte
  hb3 :: byte
  hb4 :: byte
  hb5 :: byte
  hb6 :: byte
  hb7 :: byte
  hb8 :: byte
  hb9 :: byte
  hb10 :: byte
  hb11 :: byte

definition new_header :: header where
  "new_header = \<lparr>hb0 = 0, hb1 = 0, hb2 = 0, hb3 = 0, hb4 = 0, hb5 = 0,
                 hb6 = 0, hb7 = 0, hb8 = 0, hb9 = 0, hb10 = 0, hb11 = 0\<rparr>"

definition header_bytes :: "header \<Rightarrow> byte list" where
  "header_bytes h = [hb0 h, hb1 h, hb2 h, hb3 h, hb4 h, hb5 h,
                     hb6 h, hb7 h, hb8 h, hb9 h, hb10 h, hb11 h]"

text \<open>
  \<^verbatim>\<open>copy(header.bytes[:], src)\<close> overwrites the first \<open>min 12 (len src)\<close> cells and returns
  that number.
\<close>

definition copy_cell :: "byte list \<Rightarrow> nat \<Rightarrow> byte \<Rightarrow> byte" where
  "copy_cell src i old = (if i < length src then src ! i else old)"

definition copy_header :: "header \<Rightarrow> byte list \<Rightarrow> header \<times> nat" where
  "copy_header h src =
     (\<lparr>hb0 = copy_cell src 0 (hb0 h), hb1 = copy_cell src 1 (hb1 h),
       hb2 = copy_cell src 2 (hb2 h), hb3 = copy_cell src 3 (hb3 h),
       hb4 = copy_cell src 4 (hb4 h), hb5 = copy_cell src 5 (hb5 h),
       hb6 = copy_cell src 6 (hb6 h), hb7 = copy_cell src 7 (hb7 h),
       hb8 = copy_cell src 8 (hb8 h), hb9 = copy_cell src 9 (hb9 h),
       hb10 = copy_cell src 10 (hb10 h), hb11 = copy_cell src 11 (hb11 h)\<rparr>,
      min 12 (length src))"

definition setId :: "uint16 \<Rightarrow> header \<Rightarrow> header" where
  "setId v h = h\<lparr>hb0 := fst (PutUint16 v), hb1 := snd (PutUint16 v)\<rparr>"

definition setQR :: "byte \<Rightarrow> header \<Rightarrow> header" where
  "setQR isReply h = h\<lparr>hb2 := hb2 h OR push_bit 7 isReply\<rparr>"

definition OPCODE :: "header \<Rightarrow> byte" where
  "OPCODE h = drop_bit 3 (hb2 h AND 0x78)"

definition setAA :: "byte \<Rightarrow> header \<Rightarrow> header" where
  "setAA isAuthoritativeAnswer h = h\<lparr>hb2 := hb2 h OR push_bit 2 isAuthoritativeAnswer\<rparr>"

definition setTC :: "byte \<Rightarrow> header \<Rightarrow> header" where
  "setTC isTruncated h = h\<lparr>hb2 := hb2 h OR push_bit 1 isTruncated\<rparr>"

definition setRD :: "byte \<Rightarrow> header \<Rightarrow> header" where
  "setRD recursionDesired h = h\<lparr>hb2 := hb2 h OR recursionDesired\<rparr>"

definition RD :: "header \<Rightarrow> byte" where
  "RD h = hb2 h AND 0x01"

definition setRA :: "byte \<Rightarrow> header \<Rightarrow> header" where
  "setRA recursionAvailable h = h\<lparr>hb3 := hb3 h OR push_bit 7 recursionAvailable\<rparr>"

definition setZ :: "byte \<Rightarrow> header \<Rightarrow> header" where
  "setZ val h = h\<lparr>hb3 := (hb3 h AND 0x8F) OR (val AND 0x70)\<rparr>"

definition setRCODE :: "byte \<Rightarrow> header \<Rightarrow> header" where
  "setRCODE code h = h\<lparr>hb3 := (hb3 h AND 0xF0) OR (code AND 0x0F)\<rparr>"

definition setQDCOUNT :: "uint16 \<Rightarrow> header \<Rightarrow> header" where
  "setQDCOUNT count h = h\<lparr>hb4 := fst (PutUint16 count), hb5 := snd (PutUint16 count)\<rparr>"

definition QDCOUNT :: "header \<Rightarrow> uint16" where
  "QDCOUNT h = Uint16 (hb4 h, hb5 h)"

definition setANCOUNT :: "uint16 \<Rightarrow> header \<Rightarrow> header" where
  "setANCOUNT count h = h\<lparr>hb6 := fst (PutUint16 count), hb7 := snd (PutUint16 count)\<rparr>"

definition ANCOUNT :: "header \<Rightarrow> uint16" where
  "ANCOUNT h = Uint16 (hb6 h, hb7 h)"

text \<open>
  The source reads only \<^verbatim>\<open>OPCODE\<close>, \<^verbatim>\<open>RD\<close>, \<^verbatim>\<open>QDCOUNT\<close> and \<^verbatim>\<open>ANCOUNT\<close>. To state what a header
  holds, the other fields are read here at the bits their setters write (RFC 1035, 4.1.1):
  \<open>QR\<close> is bit 7, \<open>AA\<close> bit 2 and \<open>TC\<close> bit 1 of byte 2; \<open>RA\<close> is bit 7, \<open>Z\<close> bits 6 to 4 and
  \<open>RCODE\<close> bits 3 to 0 of byte 3. The source has no accessor at all for the last two
  counts; by the header layout of the specification they are the big-endian values of
  bytes 8, 9 and of bytes 10, 11.
\<close>

definition QR :: "header \<Rightarrow> byte" where
  "QR h = drop_bit 7 (hb2 h) AND 0x01"

definition AA :: "header \<Rightarrow> byte" where
  "AA h = drop_bit 2 (hb2 h) AND 0x01"

definition TC :: "header \<Rightarrow> byte" where
  "TC h = drop_bit 1 (hb2 h) AND 0x01"

definition RA :: "header \<Rightarrow> byte" where
  "RA h = drop_bit 7 (hb3 h) AND 0x01"

definition Z :: "header \<Rightarrow> byte" where
  "Z h = drop_bit 4 (hb3 h) AND 0x07"

definition RCODE :: "header \<Rightarrow> byte" where
  "RCODE h = hb3 h AND 0x0F"

definition NSCOUNT :: "header \<Rightarrow> uint16" where
  "NSCOUNT h = Uint16 (hb8 h, hb9 h)"

definition ARCOUNT :: "header \<Rightarrow> uint16" where
  "ARCOUNT h = Uint16 (hb10 h, hb11 h)"

section \<open>Questions, resource records, messages\<close>

record question =
  QNAME :: "gostring list"
  QTYPE :: bytes2
  QCLASS :: bytes2

record RR =
  NAME :: "gostring list"
  TYPE_RR :: bytes2
  CLASS :: bytes2
  TTL :: bytes4
  RDLENGTH :: bytes2
  RDATA :: "byte list"

text \<open>
  \<^verbatim>\<open>RDATA\<close> of a decoded record is a slice of the frame's buffer. The buffer a record is
  decoded from is not written again while the record is in use (the server uses only the
  questions of an inbound request, and \<^verbatim>\<open>forwardResolve\<close> allocates a buffer per reply), so
  the field is its contents.
\<close>

definition new_question :: question where
  "new_question = \<lparr>QNAME = [], QTYPE = (0, 0), QCLASS = (0, 0)\<rparr>"

definition new_RR :: RR where
  "new_RR = \<lparr>NAME = [], TYPE_RR = (0, 0), CLASS = (0, 0), TTL = (0, 0, 0, 0),
             RDLENGTH = (0, 0), RDATA = []\<rparr>"

definition question_len :: "question \<Rightarrow> nat" where
  "question_len q = length (QNAME q) + 4"

definition question_setType :: "uint16 \<Rightarrow> question \<Rightarrow> question" where
  "question_setType t q = q\<lparr>QTYPE := PutUint16 t\<rparr>"

definition question_setClass :: "uint16 \<Rightarrow> question \<Rightarrow> question" where
  "question_setClass c q = q\<lparr>QCLASS := PutUint16 c\<rparr>"

definition RR_len :: "RR \<Rightarrow> nat" where
  "RR_len rr = length (NAME rr) + 10 + length (RDATA rr)"

definition RR_setType :: "uint16 \<Rightarrow> RR \<Rightarrow> RR" where
  "RR_setType t rr = rr\<lparr>TYPE_RR := PutUint16 t\<rparr>"

definition RR_setClass :: "uint16 \<Rightarrow> RR \<Rightarrow> RR" where
  "RR_setClass c rr = rr\<lparr>CLASS := PutUint16 c\<rparr>"

definition RR_setTTL :: "32 word \<Rightarrow> RR \<Rightarrow> RR" where
  "RR_setTTL ttl rr = rr\<lparr>TTL := PutUint32 ttl\<rparr>"

definition RR_setData :: "byte list \<Rightarrow> RR \<Rightarrow> RR" where
  "RR_setData data rr = rr\<lparr>RDLENGTH := PutUint16 (of_nat (length data)), RDATA := data\<rparr>"

record message =
  cache :: "labelCache option"
  header :: header
  question :: "question list"
  answer :: "RR list"
  authority :: "RR list"
  additional :: "RR list"

definition new_labelCache :: labelCache where
  "new_labelCache = \<lparr>labelMap = fmempty, positionMap = fmempty\<rparr>"

section \<open>Decoding a message\<close>

text \<open>
  \<open>decodeQuestion\<close> and \<open>decodeAnswer\<close> are the bodies of the two loops of \<^verbatim>\<open>deserialize\<close>;
  \<open>decodeQuestions\<close> and \<open>decodeAnswers\<close> are the loops, which run \<^verbatim>\<open>QDCOUNT\<close> and
  \<^verbatim>\<open>ANCOUNT\<close> times (the counter is a \<^verbatim>\<open>uint16\<close> below the count, so it never wraps). A panic
  or an error ends the decoding. The result \<open>None\<close> stands for a call that does not return.
\<close>

definition decodeQuestion ::
  "goslice \<Rightarrow> nat \<Rightarrow> labelCache \<Rightarrow> (error + (question \<times> nat \<times> labelCache)) option" where
  "decodeQuestion frame head lc =
     (case decodeLabels frame head lc of
        None \<Rightarrow> None
      | Some (Inl e) \<Rightarrow> Some (Inl e)
      | Some (Inr (labels, head1, lc1)) \<Rightarrow>
          (case extractUint16 frame head1 of
             Inl e \<Rightarrow> Some (Inl e)
           | Inr (qtype, _, head2) \<Rightarrow>
               (case extractUint16 frame head2 of
                  Inl e \<Rightarrow> Some (Inl e)
                | Inr (qclass, _, head3) \<Rightarrow>
                    Some (Inr (\<lparr>QNAME = labels, QTYPE = qtype, QCLASS = qclass\<rparr>,
                               head3, lc1)))))"

fun decodeQuestions ::
  "goslice \<Rightarrow> nat \<Rightarrow> nat \<Rightarrow> labelCache \<Rightarrow> question list
     \<Rightarrow> (error + (question list \<times> nat \<times> labelCache)) option" where
  "decodeQuestions frame 0 head lc questions = Some (Inr (questions, head, lc))"
| "decodeQuestions frame (Suc n) head lc questions =
     (case decodeQuestion frame head lc of
        None \<Rightarrow> None
      | Some (Inl e) \<Rightarrow> Some (Inl e)
      | Some (Inr (q, head', lc')) \<Rightarrow>
          decodeQuestions frame n head' lc' (questions @ [q]))"

definition decodeAnswer ::
  "goslice \<Rightarrow> nat \<Rightarrow> labelCache \<Rightarrow> (error + (RR \<times> nat \<times> labelCache)) option" where
  "decodeAnswer frame head lc =
     (case decodeLabels frame head lc of
        None \<Rightarrow> None
      | Some (Inl e) \<Rightarrow> Some (Inl e)
      | Some (Inr (labels, head1, lc1)) \<Rightarrow>
          (case extractUint16 frame head1 of
             Inl e \<Rightarrow> Some (Inl e)
           | Inr (type, _, head2) \<Rightarrow>
               (case extractUint16 frame head2 of
                  Inl e \<Rightarrow> Some (Inl e)
                | Inr (class, _, head3) \<Rightarrow>
                    (case extractUint32 frame head3 of
                       Inl e \<Rightarrow> Some (Inl e)
                     | Inr (ttl, head4) \<Rightarrow>
                         (case extractUint16 frame head4 of
                            Inl e \<Rightarrow> Some (Inl e)
                          | Inr (rdlength, rdLength, head5) \<Rightarrow>
                              (case extractBytes frame head5 (unat rdLength) of
                                 Inl e \<Rightarrow> Some (Inl e)
                               | Inr (rdata, head6) \<Rightarrow>
                                   Some (Inr (\<lparr>NAME = labels, TYPE_RR = type, CLASS = class,
                                               TTL = ttl, RDLENGTH = rdlength, RDATA = rdata\<rparr>,
                                              head6, lc1))))))))"

fun decodeAnswers ::
  "goslice \<Rightarrow> nat \<Rightarrow> nat \<Rightarrow> labelCache \<Rightarrow> RR list
     \<Rightarrow> (error + (RR list \<times> nat \<times> labelCache)) option" where
  "decodeAnswers frame 0 head lc answers = Some (Inr (answers, head, lc))"
| "decodeAnswers frame (Suc n) head lc answers =
     (case decodeAnswer frame head lc of
        None \<Rightarrow> None
      | Some (Inl e) \<Rightarrow> Some (Inl e)
      | Some (Inr (a, head', lc')) \<Rightarrow>
          decodeAnswers frame n head' lc' (answers @ [a]))"

definition deserialize :: "goslice \<Rightarrow> (error + message) option" where
  "deserialize frame =
     (let (hdr, copied) = copy_header new_header (elems frame) in
      if copied < 12 then Some (Inl InvalidHeader)
      else
        (case decodeQuestions frame (unat (QDCOUNT hdr)) 12 new_labelCache [] of
           None \<Rightarrow> None
         | Some (Inl e) \<Rightarrow> Some (Inl e)
         | Some (Inr (questions, head, lc1)) \<Rightarrow>
             (case decodeAnswers frame (unat (ANCOUNT hdr)) head lc1 [] of
                None \<Rightarrow> None
              | Some (Inl e) \<Rightarrow> Some (Inl e)
              | Some (Inr (answers, head', lc2)) \<Rightarrow>
                  Some (Inr \<lparr>cache = Some lc2, header = hdr, question = questions,
                             answer = answers, authority = [], additional = []\<rparr>))))"

section \<open>Building the response\<close>

text \<open>
  The loop of \<^verbatim>\<open>createResponseMessage\<close> indexes \<^verbatim>\<open>initialMessage.question[i]\<close> for every
  \<open>i\<close> below the header's \<^verbatim>\<open>QDCOUNT\<close>; an index beyond the list is a panic.
\<close>

fun responseQuestions :: "message \<Rightarrow> nat \<Rightarrow> nat \<Rightarrow> question list \<Rightarrow> error + question list" where
  "responseQuestions initialMessage 0 i questions = Inr questions"
| "responseQuestions initialMessage (Suc n) i questions =
     (if i < length (question initialMessage)
      then responseQuestions initialMessage n (i + 1)
             (questions @ [question_setClass IN (question_setType A
                (new_question\<lparr>QNAME := QNAME (question initialMessage ! i)\<rparr>))])
      else Inl PanicIndexOutOfRange)"

definition createResponseMessage :: "message \<Rightarrow> error + message" where
  "createResponseMessage initialMessage =
     (let h0 = fst (copy_header new_header (header_bytes (header initialMessage)));
          h1 = setZ 0 (setRA 0 (setTC 0 (setAA 0 (setQR 1 h0))));
          h2 = (if OPCODE (header initialMessage) = QUERY
                then setRCODE QUERY h1 else setRCODE UNIMPLEMENTED h1)
      in case responseQuestions initialMessage
                (unat (QDCOUNT (header initialMessage))) 0 [] of
           Inl e \<Rightarrow> Inl e
         | Inr questions \<Rightarrow>
             Inr \<lparr>cache = None,
                  header = setQDCOUNT (of_nat (length questions)) h2,
                  question = questions, answer = [], authority = [], additional = []\<rparr>)"

text \<open>
  \<^verbatim>\<open>addStaticAnswer\<close>: \<^verbatim>\<open>netip.ParseAddr("8.8.8.8")\<close> succeeds and \<^verbatim>\<open>AsSlice\<close> gives the four
  bytes 8, 8, 8, 8, so the error return of the source is never taken.
\<close>

fun staticAnswers :: "message \<Rightarrow> nat \<Rightarrow> nat \<Rightarrow> RR list \<Rightarrow> error + RR list" where
  "staticAnswers m 0 i answers = Inr answers"
| "staticAnswers m (Suc n) i answers =
     (if i < length (question m)
      then staticAnswers m n (i + 1)
             (answers @ [RR_setData [8, 8, 8, 8] (RR_setTTL 60 (RR_setClass IN (RR_setType A
                (new_RR\<lparr>NAME := QNAME (question m ! i)\<rparr>))))])
      else Inl PanicIndexOutOfRange)"

definition addStaticAnswer :: "message \<Rightarrow> error + message" where
  "addStaticAnswer m =
     (case staticAnswers m (unat (QDCOUNT (header m))) 0 (answer m) of
        Inl e \<Rightarrow> Inl e
      | Inr answers \<Rightarrow>
          Inr (m\<lparr>answer := answers,
                 header := setANCOUNT (of_nat (length answers)) (header m)\<rparr>))"

section \<open>Serializing a message\<close>

text \<open>
  \<^verbatim>\<open>serialize\<close> appends the header, then every question, then every answer; it writes no
  authority and no additional record. On an error the source returns the partial buffer
  with the error, and every caller drops it. \<open>totalLen\<close> is the capacity the source
  allocates first.
\<close>

fun serialize_questions :: "question list \<Rightarrow> byte list \<Rightarrow> error + byte list" where
  "serialize_questions [] buf = Inr buf"
| "serialize_questions (q # rest) buf =
     (case encodeLabelSequence (QNAME q) of
        Inl e \<Rightarrow> Inl e
      | Inr encodedLabelSequence \<Rightarrow>
          serialize_questions rest
            (((buf @ encodedLabelSequence) @ list2 (QTYPE q)) @ list2 (QCLASS q)))"

fun serialize_answers :: "RR list \<Rightarrow> byte list \<Rightarrow> error + byte list" where
  "serialize_answers [] buf = Inr buf"
| "serialize_answers (a # rest) buf =
     (case encodeLabelSequence (NAME a) of
        Inl e \<Rightarrow> Inl e
      | Inr encodedLabelSequence \<Rightarrow>
          serialize_answers rest
            ((((((buf @ encodedLabelSequence) @ list2 (TYPE_RR a)) @ list2 (CLASS a))
                @ list4 (TTL a)) @ list2 (RDLENGTH a)) @ RDATA a))"

definition questionLen :: "message \<Rightarrow> nat" where
  "questionLen m = fold (\<lambda>q total. total + question_len q) (question m) 0"

definition answerLen :: "message \<Rightarrow> nat" where
  "answerLen m = fold (\<lambda>a total. total + RR_len a) (answer m) 0"

definition totalLen :: "message \<Rightarrow> nat" where
  "totalLen m = length (header_bytes (header m)) + questionLen m + answerLen m"

definition serialize :: "message \<Rightarrow> error + byte list" where
  "serialize m =
     (case serialize_questions (question m) ([] @ header_bytes (header m)) of
        Inl e \<Rightarrow> Inl e
      | Inr buf \<Rightarrow> serialize_answers (answer m) buf)"

section \<open>Forwarding and the server loop\<close>

text \<open>
  The upstream connection and the random source are the environment. \<open>peer w k b\<close> says
  what happens to the \<open>k\<close>-th \<^verbatim>\<open>conn.Write\<close> of the process, with payload \<open>b\<close>: the write
  fails, the write succeeds and the following \<^verbatim>\<open>ReadFromUDP\<close> fails, or a datagram comes
  back. \<open>rnd w k\<close> is the \<open>k\<close>-th result of \<^verbatim>\<open>rand.IntN(math.MaxUint16)\<close>, which Go
  draws below 65535. \<open>sent\<close> logs the datagrams written, oldest first.
\<close>

datatype exchange = WriteFails | ReadFails | Reply "byte list"

record world =
  peer :: "nat \<Rightarrow> byte list \<Rightarrow> exchange"
  rnd :: "nat \<Rightarrow> nat"
  draws :: nat
  writes :: nat
  sent :: "byte list list"

text \<open>
  \<^verbatim>\<open>ReadFromUDP(buf)\<close> stores at most \<open>len buf\<close> bytes of the datagram at the start of the
  buffer and returns how many; \<^verbatim>\<open>buf[:size]\<close> is the frame that is decoded, the rest of the
  buffer is its slack.
\<close>

definition readFromUDP :: "byte list \<Rightarrow> byte list \<Rightarrow> byte list \<times> nat" where
  "readFromUDP buf dgram =
     (take (length buf) dgram @ drop (length dgram) buf, min (length buf) (length dgram))"

definition slice_to :: "byte list \<Rightarrow> nat \<Rightarrow> goslice" where
  "slice_to buf n = \<lparr>elems = take n buf, slack = drop n buf\<rparr>"

text \<open>The message \<^verbatim>\<open>forwardResolve\<close> builds for one question.\<close>

definition upstreamQuery :: "uint16 \<Rightarrow> question \<Rightarrow> message" where
  "upstreamQuery ident q =
     \<lparr>cache = None,
      header = setQDCOUNT 1 (setZ 0 (setRD 1 (setRA 0 (setTC 0 (setAA 0 (setQR 0
                 (setId ident new_header))))))),
      question = [q], answer = [], authority = [], additional = []\<rparr>"

text \<open>
  The loop of \<^verbatim>\<open>forwardResolve\<close>. It returns at the first failure; a decoding error of the
  reply becomes \<open>ParseFailed\<close>, a panic while decoding ends the process. The answers
  gathered before a failure are returned with the error in the source and dropped by the
  caller.
\<close>

fun forwardResolve_loop ::
  "question list \<Rightarrow> world \<Rightarrow> RR list \<Rightarrow> ((error + RR list) \<times> world) option" where
  "forwardResolve_loop [] w answers = Some (Inr answers, w)"
| "forwardResolve_loop (q # rest) w answers =
     (let ident = of_nat (rnd w (draws w) mod 65535);
          w1 = w\<lparr>draws := draws w + 1\<rparr>
      in case serialize (upstreamQuery ident q) of
           Inl e \<Rightarrow> Some (Inl e, w1)
         | Inr serialized \<Rightarrow>
             (case peer w1 (writes w1) serialized of
                WriteFails \<Rightarrow> Some (Inl SendFailed, w1\<lparr>writes := writes w1 + 1\<rparr>)
              | ReadFails \<Rightarrow>
                  Some (Inl ReadFailed,
                        w1\<lparr>writes := writes w1 + 1, sent := sent w1 @ [serialized]\<rparr>)
              | Reply dgram \<Rightarrow>
                  (let w2 = w1\<lparr>writes := writes w1 + 1, sent := sent w1 @ [serialized]\<rparr>;
                       (buf, n) = readFromUDP (replicate 512 0) dgram
                   in case deserialize (slice_to buf n) of
                        None \<Rightarrow> None
                      | Some (Inl e) \<Rightarrow> Some (Inl (if is_panic e then e else ParseFailed), w2)
                      | Some (Inr resolverResponse) \<Rightarrow>
                          forwardResolve_loop rest w2 (answers @ answer resolverResponse))))"

definition forwardResolve :: "question list \<Rightarrow> world \<Rightarrow> ((error + RR list) \<times> world) option" where
  "forwardResolve questions w = forwardResolve_loop questions w []"

text \<open>
  One turn of the loop of \<^verbatim>\<open>main\<close> after a datagram has been read into \<open>buf\<close>, up to the
  serialized response: \<open>main_response\<close> is the message that is handed to \<^verbatim>\<open>serialize\<close>,
  \<open>main_step\<close> the bytes handed to \<^verbatim>\<open>WriteToUDP\<close>. \<open>forwarding\<close> says whether a resolver is
  configured. An \<open>Inl\<close> result is a logged error, after which the loop continues, or a panic
  (\<open>is_panic\<close>), which ends the process.
\<close>

definition main_response ::
  "bool \<Rightarrow> world \<Rightarrow> goslice \<Rightarrow> ((error + message) \<times> world) option" where
  "main_response forwarding w incomingFrame =
     (case deserialize incomingFrame of
        None \<Rightarrow> None
      | Some (Inl e) \<Rightarrow> Some (Inl e, w)
      | Some (Inr incomingMessage) \<Rightarrow>
          (case createResponseMessage incomingMessage of
             Inl e \<Rightarrow> Some (Inl e, w)
           | Inr response \<Rightarrow>
               if forwarding then
                 (case forwardResolve (question response) w of
                    None \<Rightarrow> None
                  | Some (Inl e, w') \<Rightarrow> Some (Inl e, w')
                  | Some (Inr answers, w') \<Rightarrow>
                      Some (Inr (response\<lparr>answer := answers,
                                   header := setANCOUNT (of_nat (length answers))
                                               (header response)\<rparr>), w'))
               else
                 (case addStaticAnswer response of
                    Inl e \<Rightarrow> Some (Inl e, w)
                  | Inr response' \<Rightarrow> Some (Inr response', w))))"

definition main_step ::
  "bool \<Rightarrow> world \<Rightarrow> byte list \<Rightarrow> byte list \<Rightarrow> ((error + byte list) \<times> world) option" where
  "main_step forwarding w buf dgram =
     (let (buf', n) = readFromUDP buf dgram in
      case main_response forwarding w (slice_to buf' n) of
        None \<Rightarrow> None
      | Some (Inl e, w') \<Rightarrow> Some (Inl e, w')
      | Some (Inr response, w') \<Rightarrow> Some (serialize response, w'))"

section \<open>The labels behind a compression pointer\<close>

text \<open>
  The labels a compression pointer to \<open>offset\<close> stands for, written after the words of
  the specification of \<^verbatim>\<open>decodeLabels\<close> (section 4.2): the label recorded at that offset
  and every label that follows it, found by looking up \<open>offset + 1 + len(label)\<close> in the
  position cache until no further label is recorded. This is the specification's side of a
  comparison; the source's \<^verbatim>\<open>allSubsequentLabels\<close>, defined above, is proved equal to it
  below.
\<close>

function spec_pointer_labels :: "(nat, gostring) fmap \<Rightarrow> nat \<Rightarrow> gostring list" where
  "spec_pointer_labels pm offset =
     (case fmlookup pm offset of
        None \<Rightarrow> []
      | Some label \<Rightarrow> label # spec_pointer_labels pm (offset + 1 + length label))"
  by pat_completeness auto
termination
proof (relation "measure (\<lambda>(pm, offset). Suc (Max (insert 0 (fmdom' pm))) - offset)")
  show "wf (measure (\<lambda>(pm, offset). Suc (Max (insert 0 (fmdom' pm))) - offset))"
    by simp
next
  fix pm :: "(nat, gostring) fmap" and offset :: nat and label :: gostring
  assume "fmlookup pm offset = Some label"
  then have "offset \<in> fmdom' pm" by (rule fmdom'I)
  then have "offset \<le> Max (insert 0 (fmdom' pm))" by simp
  then show "((pm, offset + 1 + length label), (pm, offset))
      \<in> measure (\<lambda>(pm, offset). Suc (Max (insert 0 (fmdom' pm))) - offset)"
    by simp
qed

declare spec_pointer_labels.simps [simp del]

text \<open>
  The frame \<^verbatim>\<open>forwardResolve\<close> decodes after reading the datagram \<open>dgram\<close> into its fresh
  512-byte buffer (the \<^verbatim>\<open>buf[:size]\<close> of its loop body), named for the theorems.
\<close>

definition reply_frame :: "byte list \<Rightarrow> goslice" where
  "reply_frame dgram =
     (let (buf, n) = readFromUDP (replicate 512 0) dgram in slice_to buf n)"

text \<open>
  The frame the server loop decodes after reading the datagram \<open>dgram\<close> into its buffer
  (the \<^verbatim>\<open>buf[:size]\<close> of \<^verbatim>\<open>main\<close>), named for the theorems.
\<close>

definition request_frame :: "byte list \<Rightarrow> byte list \<Rightarrow> goslice" where
  "request_frame buf dgram = (let (buf', n) = readFromUDP buf dgram in slice_to buf' n)"

text \<open>
  Two requests with two questions each, used below. In both, the second name is a
  compression pointer to the label com of the first name. In \<open>request_pointer_C1\<close> that
  label is at offset 256, so the pointer is the byte pair C1 00 (first byte 193); in
  \<open>request_pointer_C0\<close> it is at offset 255, and the pointer is C0 FF (first byte 192).
\<close>

definition request_pointer_C1 :: "byte list" where
  "request_pointer_C1 =
     [0, 1, 1, 0, 0, 2, 0, 0, 0, 0, 0, 0]
     @ [60] @ replicate 60 97 @ [60] @ replicate 60 97 @ [60] @ replicate 60 97
     @ [60] @ replicate 60 97 @ [3, 99, 111, 109, 0, 0, 1, 0, 1]
     @ [193, 0, 0, 1, 0, 1]"

definition request_pointer_C0 :: "byte list" where
  "request_pointer_C0 =
     [0, 1, 1, 0, 0, 2, 0, 0, 0, 0, 0, 0]
     @ [60] @ replicate 60 97 @ [60] @ replicate 60 97 @ [60] @ replicate 60 97
     @ [59] @ replicate 59 97 @ [3, 99, 111, 109, 0, 0, 1, 0, 1]
     @ [192, 255, 0, 1, 0, 1]"

section \<open>The wire format, for stating what the codec does\<close>

text \<open>
  The byte layout of RFC 1035 that \<^verbatim>\<open>serialize\<close> and \<^verbatim>\<open>deserialize\<close> are compared with
  below: a name without compression, a question entry and a resource record. These are
  not translations of source functions; the theorems relate the source's functions to
  them.
\<close>

definition wire_labels :: "gostring list \<Rightarrow> byte list" where
  "wire_labels labels = concat (map (\<lambda>label. of_nat (length label) # label) labels) @ [0]"

definition wire_question :: "question \<Rightarrow> byte list" where
  "wire_question q = wire_labels (QNAME q) @ list2 (QTYPE q) @ list2 (QCLASS q)"

definition wire_RR :: "RR \<Rightarrow> byte list" where
  "wire_RR a = wire_labels (NAME a) @ list2 (TYPE_RR a) @ list2 (CLASS a) @ list4 (TTL a)
                 @ list2 (RDLENGTH a) @ RDATA a"

text \<open>
  A valid name has labels of 1 to 63 bytes and an encoding of at most 255 bytes. A valid
  message has valid names, header counts equal to the numbers of questions and answers,
  \<^verbatim>\<open>RDLENGTH\<close> fields equal to the length of the record data, and no authority or
  additional records.
\<close>

definition valid_name :: "gostring list \<Rightarrow> bool" where
  "valid_name labels \<longleftrightarrow>
     list_all (\<lambda>label. 1 \<le> length label \<and> length label \<le> 63) labels
     \<and> length (wire_labels labels) \<le> 255"

definition valid_RR :: "RR \<Rightarrow> bool" where
  "valid_RR a \<longleftrightarrow> valid_name (NAME a) \<and> unat (Uint16 (RDLENGTH a)) = length (RDATA a)"

definition valid_message :: "message \<Rightarrow> bool" where
  "valid_message m \<longleftrightarrow>
     list_all (\<lambda>q. valid_name (QNAME q)) (question m)
     \<and> list_all valid_RR (answer m)
     \<and> unat (QDCOUNT (header m)) = length (question m)
     \<and> unat (ANCOUNT (header m)) = length (answer m)
     \<and> authority m = [] \<and> additional m = []"

section \<open>Termination of the cache walk\<close>

text \<open>
  Every step of the walk finds its offset among the keys of the finite map and moves to a
  strictly greater offset, so the distance to the greatest key shrinks.
\<close>

lemma allSubsequentLabels_loop_returns:
  "\<exists>ls. allSubsequentLabels_loop pm head acc = Some ls"
proof (induction "Suc (Max (insert 0 (fmdom' pm))) - head" arbitrary: head acc rule: less_induct)
  case less
  show ?case
  proof (cases "fmlookup pm head")
    case None
    then show ?thesis by (subst allSubsequentLabels_loop.simps) simp
  next
    case (Some l)
    then have "head \<in> fmdom' pm" by (rule fmdom'I)
    then have "head \<le> Max (insert 0 (fmdom' pm))" by simp
    then have "Suc (Max (insert 0 (fmdom' pm))) - (head + (length l + 1))
        < Suc (Max (insert 0 (fmdom' pm))) - head" by arith
    from less[OF this] obtain ls where
      "allSubsequentLabels_loop pm (head + (length l + 1)) (acc @ [l]) = Some ls" by blast
    then show ?thesis using Some by (subst allSubsequentLabels_loop.simps) simp
  qed
qed

text \<open>
  C8: for every label cache (in particular every cache reached while decoding a frame) and
  every pointer target offset, \<^verbatim>\<open>allSubsequentLabels\<close> returns a list of labels: resolving a
  compression pointer cannot loop forever.
\<close>

theorem allSubsequentLabels_terminates:
  "\<exists>labels. allSubsequentLabels c head = Some labels"
  unfolding allSubsequentLabels_def by (rule allSubsequentLabels_loop_returns)

section \<open>Evaluation on concrete frames\<close>

lemmas decode_eval =
  deserialize_def copy_header_def copy_cell_def new_header_def new_labelCache_def
  QDCOUNT_def ANCOUNT_def Uint16_def decodeQuestion_def decodeAnswer_def
  decodeLabels_def decodeLabels_loop.simps allSubsequentLabels_def
  allSubsequentLabels_loop.simps extractBytes_def extractUint16_def extractUint32_def

lemmas encode_eval =
  serialize_def encodeLabelSequence_def header_bytes_def

lemmas header_eval =
  setId_def setQR_def setAA_def setTC_def setRD_def setRA_def setZ_def setRCODE_def
  setQDCOUNT_def setANCOUNT_def PutUint16_def PutUint32_def OPCODE_def QUERY_def
  UNIMPLEMENTED_def A_def IN_def

lemmas response_eval =
  createResponseMessage_def addStaticAnswer_def new_question_def new_RR_def
  question_setType_def question_setClass_def RR_setType_def RR_setClass_def
  RR_setTTL_def RR_setData_def

lemmas server_eval =
  main_step_def main_response_def forwardResolve_def upstreamQuery_def
  readFromUDP_def slice_to_def

section \<open>Truncated frames\<close>

text \<open>
  C1 (the code differs from the claim). The frame is a complete header that announces one
  question and ends there. \<^verbatim>\<open>deserialize\<close> passes the header check and enters
  \<^verbatim>\<open>decodeLabels\<close>, whose first statement indexes \<^verbatim>\<open>frame[12]\<close> in a slice of length 12: a
  run-time panic, not an error value. The server loop therefore does not log and continue;
  with the datagram read into its 512-byte buffer the turn of the loop ends in the panic,
  in static and in forwarding mode.
\<close>

theorem deserialize_truncated_question_panics:
  "deserialize \<lparr>elems = [0, 0, 0, 0, 0, 1, 0, 0, 0, 0, 0, 0], slack = []\<rparr>
     = Some (Inl PanicIndexOutOfRange)
   \<and> is_panic PanicIndexOutOfRange
   \<and> main_step forwarding w (replicate 512 0) [0, 0, 0, 0, 0, 1, 0, 0, 0, 0, 0, 0]
     = Some (Inl PanicIndexOutOfRange, w)"
  by (simp add: decode_eval server_eval)

text \<open>
  A declared \<^verbatim>\<open>RDLENGTH\<close> that runs past the end of the datagram is not detected either
  while it stays inside the 512-byte buffer: the slice expression of \<^verbatim>\<open>extractBytes\<close> is
  checked against the capacity, and the record data is filled from the cells behind the
  datagram (here 7, 7, left by an earlier datagram). With no slack the same frame panics.
\<close>

lemma deserialize_rdlength_overrun:
  "deserialize \<lparr>elems = [0, 0, 0, 0, 0, 0, 0, 1, 0, 0, 0, 0,  0, 0, 1, 0, 1, 0, 0, 0, 60, 0, 4, 9, 9],
                 slack = [7, 7, 7]\<rparr>
     = Some (Inr \<lparr>cache = Some new_labelCache,
          header = \<lparr>hb0 = 0, hb1 = 0, hb2 = 0, hb3 = 0, hb4 = 0, hb5 = 0,
                    hb6 = 0, hb7 = 1, hb8 = 0, hb9 = 0, hb10 = 0, hb11 = 0\<rparr>,
          question = [],
          answer = [\<lparr>NAME = [], TYPE_RR = (0, 1), CLASS = (0, 1), TTL = (0, 0, 0, 60),
                     RDLENGTH = (0, 4), RDATA = [9, 9, 7, 7]\<rparr>],
          authority = [], additional = []\<rparr>)"
  "deserialize \<lparr>elems = [0, 0, 0, 0, 0, 0, 0, 1, 0, 0, 0, 0,  0, 0, 1, 0, 1, 0, 0, 0, 60, 0, 4, 9, 9],
                 slack = []\<rparr>
     = Some (Inl PanicSliceBounds)"
  by (simp_all add: decode_eval)

section \<open>Flag bits of the response\<close>

text \<open>
  C4 (the code differs from the claim). The request header has \<open>AA\<close>, \<open>TC\<close> (byte 2 is
  \<open>0x06\<close>), \<open>RA\<close> and all of \<open>Z\<close> (byte 3 is \<open>0xF0\<close>) set. \<^verbatim>\<open>setAA(0)\<close>, \<^verbatim>\<open>setTC(0)\<close> and
  \<^verbatim>\<open>setRA(0)\<close> OR a zero into the copied byte, which leaves the request's bits in place:
  the response header has \<open>AA = 1\<close>, \<open>TC = 1\<close> and \<open>RA = 1\<close>. Only \<^verbatim>\<open>setZ\<close>, which masks the
  field out first, clears its bits.
\<close>

theorem createResponseMessage_keeps_AA_TC_RA:
  "createResponseMessage
     \<lparr>cache = None,
      header = \<lparr>hb0 = 0, hb1 = 0, hb2 = 0x06, hb3 = 0xF0, hb4 = 0, hb5 = 0,
                hb6 = 0, hb7 = 0, hb8 = 0, hb9 = 0, hb10 = 0, hb11 = 0\<rparr>,
      question = [], answer = [], authority = [], additional = []\<rparr>
   = Inr \<lparr>cache = None,
      header = \<lparr>hb0 = 0, hb1 = 0, hb2 = 0x86, hb3 = 0x80, hb4 = 0, hb5 = 0,
                hb6 = 0, hb7 = 0, hb8 = 0, hb9 = 0, hb10 = 0, hb11 = 0\<rparr>,
      question = [], answer = [], authority = [], additional = []\<rparr>
   \<and> AA \<lparr>hb0 = 0, hb1 = 0, hb2 = 0x86, hb3 = 0x80, hb4 = 0, hb5 = 0,
          hb6 = 0, hb7 = 0, hb8 = 0, hb9 = 0, hb10 = 0, hb11 = 0\<rparr> = 1
   \<and> TC \<lparr>hb0 = 0, hb1 = 0, hb2 = 0x86, hb3 = 0x80, hb4 = 0, hb5 = 0,
          hb6 = 0, hb7 = 0, hb8 = 0, hb9 = 0, hb10 = 0, hb11 = 0\<rparr> = 1
   \<and> RA \<lparr>hb0 = 0, hb1 = 0, hb2 = 0x86, hb3 = 0x80, hb4 = 0, hb5 = 0,
          hb6 = 0, hb7 = 0, hb8 = 0, hb9 = 0, hb10 = 0, hb11 = 0\<rparr> = 1
   \<and> Z \<lparr>hb0 = 0, hb1 = 0, hb2 = 0x86, hb3 = 0x80, hb4 = 0, hb5 = 0,
         hb6 = 0, hb7 = 0, hb8 = 0, hb9 = 0, hb10 = 0, hb11 = 0\<rparr> = 0"
  by (simp add: response_eval header_eval decode_eval header_bytes_def
        AA_def TC_def RA_def Z_def)

section \<open>The precomputed lengths\<close>

text \<open>
  C7 (the code differs from the claim). \<^verbatim>\<open>len(q.QNAME)\<close> is the number of labels of the
  name, not the number of bytes of its encoding. For the name google.com, \<^verbatim>\<open>question.len()\<close>
  is \<open>2 + 4 = 6\<close> while the question is encoded in 16 bytes, and \<^verbatim>\<open>RR.len()\<close> of its
  4-byte address record is \<open>2 + 10 + 4 = 16\<close> while the record is encoded in 26 bytes; the
  capacity \<open>totalLen\<close> of the message with both is 34, the output has 54 bytes.
\<close>

theorem question_len_counts_labels:
  "question_len \<lparr>QNAME = [[103, 111, 111, 103, 108, 101], [99, 111, 109]],
                  QTYPE = (0, 1), QCLASS = (0, 1)\<rparr> = 6
   \<and> serialize_questions
         [\<lparr>QNAME = [[103, 111, 111, 103, 108, 101], [99, 111, 109]],
            QTYPE = (0, 1), QCLASS = (0, 1)\<rparr>] []
       = Inr [6, 103, 111, 111, 103, 108, 101, 3, 99, 111, 109, 0, 0, 1, 0, 1]
   \<and> RR_len \<lparr>NAME = [[103, 111, 111, 103, 108, 101], [99, 111, 109]], TYPE_RR = (0, 1),
              CLASS = (0, 1), TTL = (0, 0, 0, 60), RDLENGTH = (0, 4), RDATA = [8, 8, 8, 8]\<rparr>
       = 16
   \<and> serialize_answers
         [\<lparr>NAME = [[103, 111, 111, 103, 108, 101], [99, 111, 109]], TYPE_RR = (0, 1),
            CLASS = (0, 1), TTL = (0, 0, 0, 60), RDLENGTH = (0, 4), RDATA = [8, 8, 8, 8]\<rparr>] []
       = Inr [6, 103, 111, 111, 103, 108, 101, 3, 99, 111, 109, 0, 0, 1, 0, 1,
              0, 0, 0, 60, 0, 4, 8, 8, 8, 8]
   \<and> totalLen \<lparr>cache = None, header = new_header,
         question = [\<lparr>QNAME = [[103, 111, 111, 103, 108, 101], [99, 111, 109]],
                       QTYPE = (0, 1), QCLASS = (0, 1)\<rparr>],
         answer = [\<lparr>NAME = [[103, 111, 111, 103, 108, 101], [99, 111, 109]], TYPE_RR = (0, 1),
                     CLASS = (0, 1), TTL = (0, 0, 0, 60), RDLENGTH = (0, 4),
                     RDATA = [8, 8, 8, 8]\<rparr>],
         authority = [], additional = []\<rparr> = 34
   \<and> map_sum id length (serialize \<lparr>cache = None, header = new_header,
         question = [\<lparr>QNAME = [[103, 111, 111, 103, 108, 101], [99, 111, 109]],
                       QTYPE = (0, 1), QCLASS = (0, 1)\<rparr>],
         answer = [\<lparr>NAME = [[103, 111, 111, 103, 108, 101], [99, 111, 109]], TYPE_RR = (0, 1),
                     CLASS = (0, 1), TTL = (0, 0, 0, 60), RDLENGTH = (0, 4),
                     RDATA = [8, 8, 8, 8]\<rparr>],
         authority = [], additional = []\<rparr>) = Inr 54"
  by (simp add: question_len_def RR_len_def encode_eval totalLen_def questionLen_def
        answerLen_def new_header_def)

text \<open>
  The shortfall is not particular to this name: the encoding of a name has at least one
  byte more than the name has labels.
\<close>

lemma encodeLabels_loop_length:
  "encodeLabels_loop labels enc = Inr out \<Longrightarrow> length enc + length labels \<le> length out"
proof (induction labels arbitrary: enc)
  case Nil
  then show ?case by simp
next
  case (Cons l ls)
  from Cons.prems have "encodeLabels_loop ls ((enc @ [of_nat (length l)]) @ l) = Inr out"
    by (simp split: if_splits)
  from Cons.IH[OF this] show ?case by simp
qed

lemma question_len_too_small:
  "encodeLabelSequence (QNAME q) = Inr enc \<Longrightarrow> question_len q < length enc + 4"
  by (auto simp: encodeLabelSequence_def question_len_def Let_def
        split: sum.splits if_splits dest!: encodeLabels_loop_length)

section \<open>Names the decoder accepts and the encoder rejects\<close>

text \<open>
  C10: the frame holds one question whose name is a single label of 64 bytes (length byte
  64, then 64 times the letter a). \<^verbatim>\<open>deserialize\<close> decodes it, and \<^verbatim>\<open>serialize\<close> of the
  decoded message fails with the error of a label longer than 63 bytes. In forwarding
  mode, an upstream reply whose answer carries such a name is decoded and put into the
  response, and the turn of the server loop ends with the same error instead of a reply.
\<close>

theorem decoded_long_label_not_serializable:
  "deserialize \<lparr>elems = [0, 0, 0, 0, 0, 1, 0, 0, 0, 0, 0, 0] @ [64] @ replicate 64 97
                          @ [0, 0, 1, 0, 1], slack = []\<rparr>
     = Some (Inr \<lparr>cache = Some \<lparr>labelMap = fmupd (replicate 64 97) 12 fmempty,
                                 positionMap = fmupd 12 (replicate 64 97) fmempty\<rparr>,
                  header = \<lparr>hb0 = 0, hb1 = 0, hb2 = 0, hb3 = 0, hb4 = 0, hb5 = 1,
                            hb6 = 0, hb7 = 0, hb8 = 0, hb9 = 0, hb10 = 0, hb11 = 0\<rparr>,
                  question = [\<lparr>QNAME = [replicate 64 97], QTYPE = (0, 1), QCLASS = (0, 1)\<rparr>],
                  answer = [], authority = [], additional = []\<rparr>)
   \<and> serialize \<lparr>cache = Some \<lparr>labelMap = fmupd (replicate 64 97) 12 fmempty,
                                positionMap = fmupd 12 (replicate 64 97) fmempty\<rparr>,
                 header = \<lparr>hb0 = 0, hb1 = 0, hb2 = 0, hb3 = 0, hb4 = 0, hb5 = 1,
                           hb6 = 0, hb7 = 0, hb8 = 0, hb9 = 0, hb10 = 0, hb11 = 0\<rparr>,
                 question = [\<lparr>QNAME = [replicate 64 97], QTYPE = (0, 1), QCLASS = (0, 1)\<rparr>],
                 answer = [], authority = [], additional = []\<rparr>
     = Inl LabelTooLong
   \<and> length (replicate 64 (97 :: byte)) = 64
   \<and> map_option fst
        (main_step True
           \<lparr>peer = (\<lambda>k b. Reply ([0, 0, 0x80, 0, 0, 0, 0, 1, 0, 0, 0, 0] @ [64]
                        @ replicate 64 97 @ [0, 0, 1, 0, 1, 0, 0, 0, 60, 0, 4, 1, 2, 3, 4])),
            rnd = (\<lambda>k. 7), draws = 0, writes = 0, sent = []\<rparr>
           (replicate 512 0)
           [0, 1, 1, 0, 0, 1, 0, 0, 0, 0, 0, 0, 1, 97, 0, 0, 1, 0, 1])
     = Some (Inl LabelTooLong)"
  by (simp add: decode_eval encode_eval server_eval response_eval header_eval nth_append)

section \<open>Compression pointers\<close>

lemma allSubsequentLabels_loop_eq:
  "allSubsequentLabels_loop pm offset acc = Some (acc @ spec_pointer_labels pm offset)"
proof (induction pm offset arbitrary: acc rule: spec_pointer_labels.induct)
  case (1 pm offset)
  show ?case
  proof (cases "fmlookup pm offset")
    case None
    then show ?thesis
      by (subst allSubsequentLabels_loop.simps, subst spec_pointer_labels.simps) simp
  next
    case (Some label)
    have "allSubsequentLabels_loop pm (offset + 1 + length label) (acc @ [label])
        = Some ((acc @ [label]) @ spec_pointer_labels pm (offset + 1 + length label))"
      by (rule "1.IH"[OF Some])
    then show ?thesis using Some
      by (subst allSubsequentLabels_loop.simps, subst spec_pointer_labels.simps)
         (simp add: add.commute add.left_commute)
  qed
qed

lemma spec_pointer_labels_Nil:
  "spec_pointer_labels pm offset = [] \<longleftrightarrow> fmlookup pm offset = None"
  by (subst spec_pointer_labels.simps) (simp split: option.splits)

text \<open>
  What \<^verbatim>\<open>decodeLabels\<close> does when the byte at the cursor is exactly 192 (and a second byte
  follows): the two bytes are a compression pointer whose target is the second byte. The
  decoding fails with the invalid reference error when no label is recorded at the target,
  and otherwise ends the name with the labels the pointer stands for, moves the cursor by
  2 and leaves the cache as it is.
\<close>

lemma decodeLabels_pointer_192:
  "elems frame ! head = 192 \<Longrightarrow> head + 1 < length (elems frame) \<Longrightarrow>
   decodeLabels_loop frame head lc labels =
     (if fmlookup (positionMap lc) (unat (elems frame ! (head + 1))) = None
      then Some (Inl (InvalidLabelReference (elems frame ! (head + 1))))
      else Some (Inr (labels @ spec_pointer_labels (positionMap lc)
                                 (unat (elems frame ! (head + 1))),
                      head + 2, lc)))"
  by (subst decodeLabels_loop.simps)
     (simp add: allSubsequentLabels_def allSubsequentLabels_loop_eq spec_pointer_labels_Nil)

lemma decodeLabels_pointer_192_example:
  "decodeLabels_loop
     \<lparr>elems = [0, 0, 0, 0, 0, 2, 0, 0, 0, 0, 0, 0, 1, 97, 0, 0, 1, 0, 1, 192, 12, 0, 1, 0, 1],
      slack = []\<rparr> 19
     \<lparr>labelMap = fmupd [97] 12 fmempty, positionMap = fmupd 12 [97] fmempty\<rparr> []
   = Some (Inr ([[97]], 21,
                \<lparr>labelMap = fmupd [97] 12 fmempty, positionMap = fmupd 12 [97] fmempty\<rparr>))"
  using decodeLabels_pointer_192
    [of "\<lparr>elems = [0, 0, 0, 0, 0, 2, 0, 0, 0, 0, 0, 0, 1, 97, 0, 0, 1, 0, 1, 192, 12, 0, 1, 0, 1],
          slack = []\<rparr>" 19
        "\<lparr>labelMap = fmupd [97] 12 fmempty, positionMap = fmupd 12 [97] fmempty\<rparr>" "[]"]
  by (simp add: spec_pointer_labels.simps)

lemma counted_loops_numeral:
  "decodeQuestions frame (numeral k) head lc qs
     = decodeQuestions frame (Suc (pred_numeral k)) head lc qs"
  "decodeAnswers frame (numeral k) head lc rs
     = decodeAnswers frame (Suc (pred_numeral k)) head lc rs"
  "responseQuestions m (numeral k) i qs = responseQuestions m (Suc (pred_numeral k)) i qs"
  "staticAnswers m (numeral k) i rs = staticAnswers m (Suc (pred_numeral k)) i rs"
  by (simp_all only: numeral_eq_Suc)

text \<open>
  C6 (the code differs from the claim). \<^verbatim>\<open>decodeLabels\<close> compares the byte at the cursor
  with 192 only. A byte from 193 to 255 also has both high bits set, and the code has no
  branch for it: it falls into the branch of a literal label and is taken as the length of
  the label. \<open>request_pointer_C1\<close> is a well-formed request of 271 bytes with two
  questions; the second name, at offset 265, is the pointer C1 00 to the label com at
  offset 256. The byte 193 is read as a label length, 193 bytes are sliced from the
  512-byte buffer (beyond the end of the datagram), the cursor moves to 459, and the index
  expression \<^verbatim>\<open>frame[459]\<close> panics: the turn of the server loop ends the process. In
  \<open>request_pointer_C0\<close>, where the label is one byte earlier and the pointer is C0 FF, the
  request is decoded and the second name is com. The last two facts show the same on short
  frames: with 193 before a second byte 12 the read of 193 bytes leaves a frame that has
  no slack, and 193 followed by 193 bytes is decoded as one label of 193 bytes.
\<close>

theorem pointer_byte_193_read_as_label_length:
  "length request_pointer_C1 = 271
   \<and> request_pointer_C1 ! 265 = 193 \<and> request_pointer_C1 ! 256 = 3
   \<and> map_option fst (main_step False w (replicate 512 0) request_pointer_C1)
       = Some (Inl PanicIndexOutOfRange)
   \<and> map_option (map_sum id (\<lambda>m. map QNAME (question m)) \<circ> fst)
         (main_response False w (request_frame (replicate 512 0) request_pointer_C0))
       = Some (Inr [[replicate 60 97, replicate 60 97, replicate 60 97, replicate 59 97,
                     [99, 111, 109]],
                    [[99, 111, 109]]])
   \<and> decodeLabels_loop
       \<lparr>elems = [0, 0, 0, 0, 0, 2, 0, 0, 0, 0, 0, 0, 1, 97, 0, 0, 1, 0, 1, 193, 12, 0, 1, 0, 1],
        slack = []\<rparr> 19
       \<lparr>labelMap = fmupd [97] 12 fmempty, positionMap = fmupd 12 [97] fmempty\<rparr> []
     = Some (Inl PanicSliceBounds)
   \<and> decodeLabels \<lparr>elems = [193] @ replicate 193 97 @ [0], slack = []\<rparr> 0 new_labelCache
     = Some (Inr ([replicate 193 97], 195,
                  \<lparr>labelMap = fmupd (replicate 193 97) 0 fmempty,
                   positionMap = fmupd 0 (replicate 193 97) fmempty\<rparr>))"
  by (simp add: request_pointer_C1_def request_pointer_C0_def server_eval request_frame_def
        decode_eval response_eval header_eval nth_append counted_loops_numeral)

section \<open>Facts about the header fields\<close>

lemma Uint16_PutUint16: "Uint16 (PutUint16 v) = v"
  unfolding Uint16_def PutUint16_def
  by (rule bit_word_eqI) (auto simp: bit_simps)

lemma QDCOUNT_setQDCOUNT: "QDCOUNT (setQDCOUNT v h) = v"
  by (simp add: QDCOUNT_def setQDCOUNT_def Uint16_PutUint16)

lemma ANCOUNT_setANCOUNT: "ANCOUNT (setANCOUNT v h) = v"
  by (simp add: ANCOUNT_def setANCOUNT_def Uint16_PutUint16)

lemma QR_after_setQR_1: "drop_bit 7 (((x OR push_bit 7 1) OR a) OR b) AND (1 :: byte) = 1"
  by (rule bit_word_eqI) (auto simp: bit_simps)

section \<open>What a decoded message holds\<close>

lemma decodeQuestions_length:
  "decodeQuestions frame n head lc acc = Some (Inr (qs, head', lc'))
     \<Longrightarrow> length qs = length acc + n"
proof (induction n arbitrary: head lc acc)
  case 0
  then show ?case by simp
next
  case (Suc n)
  then show ?case
    by (fastforce split: option.splits sum.splits prod.splits)
qed

lemma decodeAnswers_length:
  "decodeAnswers frame n head lc acc = Some (Inr (rs, head', lc'))
     \<Longrightarrow> length rs = length acc + n"
proof (induction n arbitrary: head lc acc)
  case 0
  then show ?case by simp
next
  case (Suc n)
  then show ?case
    by (fastforce split: option.splits sum.splits prod.splits)
qed

lemma deserialize_counts:
  assumes "deserialize frame = Some (Inr m)"
  shows "length (question m) = unat (QDCOUNT (header m))"
    and "length (answer m) = unat (ANCOUNT (header m))"
    and "authority m = []" and "additional m = []"
  using assms
  by (auto simp: deserialize_def Let_def split: prod.splits if_splits option.splits sum.splits
      dest!: decodeQuestions_length decodeAnswers_length)

section \<open>The response skeleton\<close>

lemma responseQuestions_ok:
  "i + n \<le> length (question m) \<Longrightarrow>
   responseQuestions m n i acc =
     Inr (acc @ map (\<lambda>q. \<lparr>QNAME = QNAME q, QTYPE = PutUint16 A, QCLASS = PutUint16 IN\<rparr>)
                    (take n (drop i (question m))))"
proof (induction n arbitrary: i acc)
  case 0
  then show ?case by simp
next
  case (Suc n)
  from Suc.prems have lt: "i < length (question m)" and le: "(i + 1) + n \<le> length (question m)"
    by simp_all
  have split: "take (Suc n) (drop i (question m))
      = question m ! i # take n (drop (i + 1) (question m))"
    using lt by (simp add: Cons_nth_drop_Suc[symmetric])
  show ?case
    using lt Suc.IH[OF le]
    by (simp add: split question_setClass_def question_setType_def new_question_def)
qed

text \<open>
  C3: for every request that \<^verbatim>\<open>deserialize\<close> returns, \<^verbatim>\<open>createResponseMessage\<close> returns a
  response whose header has \<open>QR = 1\<close>, the \<open>QDCOUNT\<close> of the request, and
  \<open>RCODE = 0\<close> when the request's \<open>OPCODE\<close> is \<open>QUERY\<close> and \<open>RCODE = 4\<close> for every other
  \<open>OPCODE\<close>, whatever the \<open>RCODE\<close> bits of the request are.
\<close>

theorem createResponseMessage_header:
  assumes "deserialize frame = Some (Inr request)"
  shows "\<exists>response. createResponseMessage request = Inr response
           \<and> QR (header response) = 1
           \<and> QDCOUNT (header response) = QDCOUNT (header request)
           \<and> RCODE (header response)
               = (if OPCODE (header request) = QUERY then 0 else 4)"
proof -
  have len: "0 + unat (QDCOUNT (header request)) \<le> length (question request)"
    using deserialize_counts(1)[OF assms] by simp
  have n: "length (take (unat (QDCOUNT (header request))) (question request))
      = unat (QDCOUNT (header request))"
    using len by simp
  show ?thesis
    unfolding createResponseMessage_def Let_def responseQuestions_ok[OF len]
    using len
    by (simp add: n QDCOUNT_setQDCOUNT min_absorb2)
       (simp add: QR_def RCODE_def setQDCOUNT_def setRCODE_def setZ_def setRA_def setTC_def
          setAA_def setQR_def copy_header_def copy_cell_def header_bytes_def
          QR_after_setQR_1 QUERY_def UNIMPLEMENTED_def and.assoc
          bit.conj_disj_distrib2)
qed

theorem createResponseMessage_header_witness:
  "deserialize \<lparr>elems = [0, 1, 0x29, 0x0F, 0, 1, 0, 0, 0, 0, 0, 0, 1, 97, 0, 0, 1, 0, 1],
                 slack = []\<rparr>
     = Some (Inr \<lparr>cache = Some \<lparr>labelMap = fmupd [97] 12 fmempty,
                                 positionMap = fmupd 12 [97] fmempty\<rparr>,
                  header = \<lparr>hb0 = 0, hb1 = 1, hb2 = 0x29, hb3 = 0x0F, hb4 = 0, hb5 = 1,
                            hb6 = 0, hb7 = 0, hb8 = 0, hb9 = 0, hb10 = 0, hb11 = 0\<rparr>,
                  question = [\<lparr>QNAME = [[97]], QTYPE = (0, 1), QCLASS = (0, 1)\<rparr>],
                  answer = [], authority = [], additional = []\<rparr>)
   \<and> (\<exists>response.
         createResponseMessage
           \<lparr>cache = Some \<lparr>labelMap = fmupd [97] 12 fmempty,
                           positionMap = fmupd 12 [97] fmempty\<rparr>,
            header = \<lparr>hb0 = 0, hb1 = 1, hb2 = 0x29, hb3 = 0x0F, hb4 = 0, hb5 = 1,
                      hb6 = 0, hb7 = 0, hb8 = 0, hb9 = 0, hb10 = 0, hb11 = 0\<rparr>,
            question = [\<lparr>QNAME = [[97]], QTYPE = (0, 1), QCLASS = (0, 1)\<rparr>],
            answer = [], authority = [], additional = []\<rparr> = Inr response
         \<and> QR (header response) = 1 \<and> QDCOUNT (header response) = 1
         \<and> RCODE (header response) = 4)"
proof -
  have d: "deserialize \<lparr>elems = [0, 1, 0x29, 0x0F, 0, 1, 0, 0, 0, 0, 0, 0, 1, 97, 0, 0, 1, 0, 1],
                 slack = []\<rparr>
     = Some (Inr \<lparr>cache = Some \<lparr>labelMap = fmupd [97] 12 fmempty,
                                 positionMap = fmupd 12 [97] fmempty\<rparr>,
                  header = \<lparr>hb0 = 0, hb1 = 1, hb2 = 0x29, hb3 = 0x0F, hb4 = 0, hb5 = 1,
                            hb6 = 0, hb7 = 0, hb8 = 0, hb9 = 0, hb10 = 0, hb11 = 0\<rparr>,
                  question = [\<lparr>QNAME = [[97]], QTYPE = (0, 1), QCLASS = (0, 1)\<rparr>],
                  answer = [], authority = [], additional = []\<rparr>)"
    by (simp add: decode_eval)
  show ?thesis
    using d createResponseMessage_header[OF d]
    by (simp add: OPCODE_def QUERY_def QDCOUNT_def Uint16_def)
qed

section \<open>Serialization writes the wire format\<close>

lemma encodeLabels_loop_eq:
  "encodeLabels_loop labels enc =
     (if list_all (\<lambda>label. length label \<le> 63) labels
      then Inr (enc @ concat (map (\<lambda>label. of_nat (length label) # label) labels))
      else Inl LabelTooLong)"
  by (induction labels arbitrary: enc) auto

lemma encodeLabelSequence_eq:
  "encodeLabelSequence labels =
     (if \<not> list_all (\<lambda>label. length label \<le> 63) labels then Inl LabelTooLong
      else if 255 < length (wire_labels labels) then Inl LabelSeqTooLong
      else Inr (wire_labels labels))"
  by (simp add: encodeLabelSequence_def encodeLabels_loop_eq wire_labels_def)

lemma encodeLabelSequence_Inr:
  "encodeLabelSequence labels = Inr enc \<Longrightarrow> enc = wire_labels labels"
  by (simp add: encodeLabelSequence_eq split: if_splits)

lemma encodeLabelSequence_valid:
  "valid_name labels \<Longrightarrow> encodeLabelSequence labels = Inr (wire_labels labels)"
  by (auto simp: encodeLabelSequence_eq valid_name_def list_all_iff)

lemma serialize_questions_Inr:
  "serialize_questions qs buf = Inr out \<Longrightarrow> out = buf @ concat (map wire_question qs)"
proof (induction qs arbitrary: buf)
  case Nil
  then show ?case by simp
next
  case (Cons q qs)
  from Cons.prems obtain enc where enc: "encodeLabelSequence (QNAME q) = Inr enc"
    and rest: "serialize_questions qs (((buf @ enc) @ list2 (QTYPE q)) @ list2 (QCLASS q))
                 = Inr out"
    by (auto split: sum.splits)
  have "out = (((buf @ enc) @ list2 (QTYPE q)) @ list2 (QCLASS q))
                @ concat (map wire_question qs)"
    by (rule Cons.IH[OF rest])
  then show ?case
    using encodeLabelSequence_Inr[OF enc] by (simp add: wire_question_def[of q])
qed

lemma serialize_answers_Inr:
  "serialize_answers rs buf = Inr out \<Longrightarrow> out = buf @ concat (map wire_RR rs)"
proof (induction rs arbitrary: buf)
  case Nil
  then show ?case by simp
next
  case (Cons a rs)
  from Cons.prems obtain enc where enc: "encodeLabelSequence (NAME a) = Inr enc"
    and rest: "serialize_answers rs
                 ((((((buf @ enc) @ list2 (TYPE_RR a)) @ list2 (CLASS a)) @ list4 (TTL a))
                     @ list2 (RDLENGTH a)) @ RDATA a) = Inr out"
    by (auto split: sum.splits)
  have "out = ((((((buf @ enc) @ list2 (TYPE_RR a)) @ list2 (CLASS a)) @ list4 (TTL a))
                     @ list2 (RDLENGTH a)) @ RDATA a) @ concat (map wire_RR rs)"
    by (rule Cons.IH[OF rest])
  then show ?case
    using encodeLabelSequence_Inr[OF enc] by (simp add: wire_RR_def[of a])
qed

lemma serialize_Inr:
  "serialize m = Inr out \<Longrightarrow>
   out = header_bytes (header m) @ concat (map wire_question (question m))
           @ concat (map wire_RR (answer m))"
  by (auto simp: serialize_def split: sum.splits
      dest!: serialize_questions_Inr serialize_answers_Inr)

lemma serialize_questions_valid:
  "list_all (\<lambda>q. valid_name (QNAME q)) qs \<Longrightarrow>
   serialize_questions qs buf = Inr (buf @ concat (map wire_question qs))"
proof (induction qs arbitrary: buf)
  case Nil
  then show ?case by simp
next
  case (Cons q qs)
  then show ?case
    by (simp add: encodeLabelSequence_valid wire_question_def[of q])
qed

lemma serialize_answers_valid:
  "list_all valid_RR rs \<Longrightarrow>
   serialize_answers rs buf = Inr (buf @ concat (map wire_RR rs))"
proof (induction rs arbitrary: buf)
  case Nil
  then show ?case by simp
next
  case (Cons a rs)
  then show ?case
    by (simp add: encodeLabelSequence_valid wire_RR_def[of a] valid_RR_def)
qed

lemma serialize_valid:
  "valid_message m \<Longrightarrow>
   serialize m = Inr (header_bytes (header m) @ concat (map wire_question (question m))
                        @ concat (map wire_RR (answer m)))"
  by (simp add: serialize_def valid_message_def serialize_questions_valid
        serialize_answers_valid)

section \<open>Decoding the wire format\<close>

lemma label_length_byte:
  assumes "1 \<le> n" and "n \<le> 63"
  shows "unat (of_nat n :: byte) = n" and "(of_nat n :: byte) \<noteq> 0"
    and "(of_nat n :: byte) \<noteq> 192"
proof -
  show u: "unat (of_nat n :: byte) = n"
    using assms by (simp add: unat_of_nat)
  show "(of_nat n :: byte) \<noteq> 0"
  proof
    assume "(of_nat n :: byte) = 0"
    then have "unat (of_nat n :: byte) = 0" by simp
    with u assms show False by simp
  qed
  show "(of_nat n :: byte) \<noteq> 192"
  proof
    assume "(of_nat n :: byte) = 192"
    then have "unat (of_nat n :: byte) = 192" by simp
    with u assms show False by simp
  qed
qed

lemma extractBytes_at:
  assumes "elems frame = pre @ d @ post"
  shows "extractBytes frame (length pre) (length d) = Inr (d, length pre + length d)"
  using assms by (simp add: extractBytes_def)

lemma extractUint16_at:
  assumes "elems frame = pre @ list2 b @ post"
  shows "extractUint16 frame (length pre) = Inr (b, Uint16 b, length pre + 2)"
  using assms by (cases b) (simp add: extractUint16_def nth_append Let_def)

lemma extractUint32_at:
  assumes "elems frame = pre @ list4 b @ post"
  shows "extractUint32 frame (length pre) = Inr (b, length pre + 4)"
  using assms by (cases b) (simp add: extractUint32_def nth_append)

lemma decodeLabels_loop_wire:
  assumes "list_all (\<lambda>label. 1 \<le> length label \<and> length label \<le> 63) ls"
    and "elems frame = pre @ wire_labels ls @ post"
  shows "\<exists>lc'. decodeLabels_loop frame (length pre) lc acc
            = Some (Inr (acc @ ls, length pre + length (wire_labels ls), lc'))"
  using assms
proof (induction ls arbitrary: pre lc acc)
  case Nil
  then show ?case
    by (subst decodeLabels_loop.simps) (simp add: wire_labels_def nth_append)
next
  case (Cons l ls)
  let ?b = "of_nat (length l) :: byte"
  from Cons.prems(1) have l: "1 \<le> length l" "length l \<le> 63"
    and ls: "list_all (\<lambda>label. 1 \<le> length label \<and> length label \<le> 63) ls"
    by simp_all
  have w: "wire_labels (l # ls) = (?b # l) @ wire_labels ls"
    by (simp add: wire_labels_def)
  have e: "elems frame = (pre @ [?b]) @ l @ (wire_labels ls @ post)"
    using Cons.prems(2) by (simp add: w)
  have e': "elems frame = (pre @ ?b # l) @ wire_labels ls @ post"
    using e by simp
  have at: "elems frame ! length pre = ?b" and lt: "length pre < length (elems frame)"
    using e by (simp_all add: nth_append)
  have ex: "extractBytes frame (length pre + 1) (unat ?b)
      = Inr (l, length (pre @ ?b # l))"
    using extractBytes_at[OF e] by (simp add: label_length_byte(1)[OF l])
  from Cons.IH[OF ls e', of "lc\<lparr>labelMap := fmupd l (length pre) (labelMap lc),
        positionMap := fmupd (length pre) l (positionMap lc)\<rparr>" "acc @ [l]"]
  obtain lc' where
    "decodeLabels_loop frame (length (pre @ ?b # l))
       (lc\<lparr>labelMap := fmupd l (length pre) (labelMap lc),
           positionMap := fmupd (length pre) l (positionMap lc)\<rparr>) (acc @ [l])
     = Some (Inr ((acc @ [l]) @ ls, length (pre @ ?b # l) + length (wire_labels ls), lc'))"
    by blast
  then show ?case
    using at lt ex label_length_byte(2,3)[OF l]
    by (subst decodeLabels_loop.simps) (simp add: w)
qed

lemma decodeQuestion_wire:
  assumes "valid_name (QNAME q)" and "elems frame = pre @ wire_question q @ post"
  shows "\<exists>lc'. decodeQuestion frame (length pre) lc
            = Some (Inr (q, length pre + length (wire_question q), lc'))"
proof -
  from assms(1) have v: "list_all (\<lambda>label. 1 \<le> length label \<and> length label \<le> 63) (QNAME q)"
    by (simp add: valid_name_def)
  let ?n = "wire_labels (QNAME q)"
  have e0: "elems frame = pre @ ?n @ (list2 (QTYPE q) @ list2 (QCLASS q) @ post)"
    using assms(2) by (simp add: wire_question_def)
  have e1: "elems frame = (pre @ ?n) @ list2 (QTYPE q) @ (list2 (QCLASS q) @ post)"
    using e0 by simp
  have e2: "elems frame = (pre @ ?n @ list2 (QTYPE q)) @ list2 (QCLASS q) @ post"
    using e0 by simp
  have len2: "\<And>b :: bytes2. length (list2 b) = 2"
    by (case_tac b) simp
  from decodeLabels_loop_wire[OF v e0, of lc "[]"] obtain lc' where
    d: "decodeLabels frame (length pre) lc
          = Some (Inr (QNAME q, length (pre @ ?n), lc'))"
    by (auto simp: decodeLabels_def)
  have t: "extractUint16 frame (length (pre @ ?n))
      = Inr (QTYPE q, Uint16 (QTYPE q), length (pre @ ?n @ list2 (QTYPE q)))"
    using extractUint16_at[OF e1] by (simp add: len2)
  have c: "extractUint16 frame (length (pre @ ?n @ list2 (QTYPE q)))
      = Inr (QCLASS q, Uint16 (QCLASS q), length pre + length (wire_question q))"
    using extractUint16_at[OF e2] by (simp add: len2 wire_question_def)
  show ?thesis
    unfolding decodeQuestion_def d option.case sum.case prod.case t c by simp
qed

lemma decodeQuestions_wire:
  assumes "list_all (\<lambda>q. valid_name (QNAME q)) qs"
    and "elems frame = pre @ concat (map wire_question qs) @ post"
  shows "\<exists>lc'. decodeQuestions frame (length qs) (length pre) lc acc
            = Some (Inr (acc @ qs, length pre + length (concat (map wire_question qs)), lc'))"
  using assms
proof (induction qs arbitrary: pre lc acc)
  case Nil
  then show ?case by simp
next
  case (Cons q qs)
  from Cons.prems(1) have q: "valid_name (QNAME q)"
    and qs: "list_all (\<lambda>q. valid_name (QNAME q)) qs" by simp_all
  have e: "elems frame = pre @ wire_question q @ (concat (map wire_question qs) @ post)"
    using Cons.prems(2) by simp
  have e': "elems frame = (pre @ wire_question q) @ concat (map wire_question qs) @ post"
    using e by simp
  from decodeQuestion_wire[OF q e, of lc] obtain lc1 where
    d: "decodeQuestion frame (length pre) lc
          = Some (Inr (q, length (pre @ wire_question q), lc1))"
    by auto
  from Cons.IH[OF qs e', of lc1 "acc @ [q]"] obtain lc' where
    "decodeQuestions frame (length qs) (length (pre @ wire_question q)) lc1 (acc @ [q])
       = Some (Inr ((acc @ [q]) @ qs,
            length (pre @ wire_question q) + length (concat (map wire_question qs)), lc'))"
    by blast
  then show ?case by (simp add: d)
qed

lemma decodeAnswer_wire:
  assumes "valid_RR a" and "elems frame = pre @ wire_RR a @ post"
  shows "\<exists>lc'. decodeAnswer frame (length pre) lc
            = Some (Inr (a, length pre + length (wire_RR a), lc'))"
proof -
  from assms(1) have v: "list_all (\<lambda>label. 1 \<le> length label \<and> length label \<le> 63) (NAME a)"
    and rd: "unat (Uint16 (RDLENGTH a)) = length (RDATA a)"
    by (simp_all add: valid_RR_def valid_name_def)
  let ?n = "wire_labels (NAME a)"
  let ?p1 = "pre @ ?n"
  let ?p2 = "?p1 @ list2 (TYPE_RR a)"
  let ?p3 = "?p2 @ list2 (CLASS a)"
  let ?p4 = "?p3 @ list4 (TTL a)"
  let ?p5 = "?p4 @ list2 (RDLENGTH a)"
  have e0: "elems frame = pre @ ?n @ (list2 (TYPE_RR a) @ list2 (CLASS a) @ list4 (TTL a)
              @ list2 (RDLENGTH a) @ RDATA a @ post)"
    using assms(2) by (simp add: wire_RR_def)
  have e1: "elems frame = ?p1 @ list2 (TYPE_RR a) @ (list2 (CLASS a) @ list4 (TTL a)
              @ list2 (RDLENGTH a) @ RDATA a @ post)"
    using e0 by simp
  have e2: "elems frame = ?p2 @ list2 (CLASS a) @ (list4 (TTL a)
              @ list2 (RDLENGTH a) @ RDATA a @ post)"
    using e0 by simp
  have e3: "elems frame = ?p3 @ list4 (TTL a) @ (list2 (RDLENGTH a) @ RDATA a @ post)"
    using e0 by simp
  have e4: "elems frame = ?p4 @ list2 (RDLENGTH a) @ (RDATA a @ post)"
    using e0 by simp
  have e5: "elems frame = ?p5 @ RDATA a @ post"
    using e0 by simp
  have len2: "\<And>b :: bytes2. length (list2 b) = 2"
    by (case_tac b) simp
  have len4: "\<And>b :: bytes4. length (list4 b) = 4"
    by (case_tac b) simp
  from decodeLabels_loop_wire[OF v e0, of lc "[]"] obtain lc' where
    d: "decodeLabels frame (length pre) lc = Some (Inr (NAME a, length ?p1, lc'))"
    by (auto simp: decodeLabels_def)
  have x1: "extractUint16 frame (length ?p1)
      = Inr (TYPE_RR a, Uint16 (TYPE_RR a), length ?p2)"
    using extractUint16_at[OF e1] by (simp add: len2)
  have x2: "extractUint16 frame (length ?p2) = Inr (CLASS a, Uint16 (CLASS a), length ?p3)"
    using extractUint16_at[OF e2] by (simp add: len2)
  have x3: "extractUint32 frame (length ?p3) = Inr (TTL a, length ?p4)"
    using extractUint32_at[OF e3] by (simp add: len4)
  have x4: "extractUint16 frame (length ?p4)
      = Inr (RDLENGTH a, Uint16 (RDLENGTH a), length ?p5)"
    using extractUint16_at[OF e4] by (simp add: len2)
  have x5: "extractBytes frame (length ?p5) (unat (Uint16 (RDLENGTH a)))
      = Inr (RDATA a, length pre + length (wire_RR a))"
    using extractBytes_at[OF e5] by (simp add: rd wire_RR_def)
  show ?thesis
    unfolding decodeAnswer_def d option.case sum.case prod.case x1 x2 x3 x4 x5 by simp
qed

lemma decodeAnswers_wire:
  assumes "list_all valid_RR rs"
    and "elems frame = pre @ concat (map wire_RR rs) @ post"
  shows "\<exists>lc'. decodeAnswers frame (length rs) (length pre) lc acc
            = Some (Inr (acc @ rs, length pre + length (concat (map wire_RR rs)), lc'))"
  using assms
proof (induction rs arbitrary: pre lc acc)
  case Nil
  then show ?case by simp
next
  case (Cons a rs)
  from Cons.prems(1) have a: "valid_RR a" and rs: "list_all valid_RR rs" by simp_all
  have e: "elems frame = pre @ wire_RR a @ (concat (map wire_RR rs) @ post)"
    using Cons.prems(2) by simp
  have e': "elems frame = (pre @ wire_RR a) @ concat (map wire_RR rs) @ post"
    using e by simp
  from decodeAnswer_wire[OF a e, of lc] obtain lc1 where
    d: "decodeAnswer frame (length pre) lc = Some (Inr (a, length (pre @ wire_RR a), lc1))"
    by auto
  from Cons.IH[OF rs e', of lc1 "acc @ [a]"] obtain lc' where
    "decodeAnswers frame (length rs) (length (pre @ wire_RR a)) lc1 (acc @ [a])
       = Some (Inr ((acc @ [a]) @ rs,
            length (pre @ wire_RR a) + length (concat (map wire_RR rs)), lc'))"
    by blast
  then show ?case by (simp add: d)
qed

lemma copy_header_bytes:
  "copy_header h0 (header_bytes h @ rest) = (h, 12)"
  by (simp add: copy_header_def copy_cell_def header_bytes_def)

text \<open>
  C2: a valid message is serialized without error, and decoding the bytes (whatever lies
  behind them in the buffer) succeeds and gives back the header, the questions and the
  answers of the message.
\<close>

theorem deserialize_serialize:
  assumes "valid_message m"
  shows "\<exists>bytes. serialize m = Inr bytes
           \<and> (\<exists>m'. deserialize \<lparr>elems = bytes, slack = behind\<rparr> = Some (Inr m')
                  \<and> header m' = header m \<and> question m' = question m
                  \<and> answer m' = answer m)"
proof -
  let ?qs = "concat (map wire_question (question m))"
  let ?rs = "concat (map wire_RR (answer m))"
  let ?bytes = "header_bytes (header m) @ ?qs @ ?rs"
  let ?frame = "\<lparr>elems = ?bytes, slack = behind\<rparr>"
  from assms have vq: "list_all (\<lambda>q. valid_name (QNAME q)) (question m)"
    and vr: "list_all valid_RR (answer m)"
    and nq: "unat (QDCOUNT (header m)) = length (question m)"
    and nr: "unat (ANCOUNT (header m)) = length (answer m)"
    by (simp_all add: valid_message_def)
  have s: "serialize m = Inr ?bytes"
    by (rule serialize_valid[OF assms])
  have hl: "length (header_bytes (header m)) = 12"
    by (simp add: header_bytes_def)
  have e1: "elems ?frame = header_bytes (header m) @ ?qs @ ?rs"
    by simp
  have e2: "elems ?frame = (header_bytes (header m) @ ?qs) @ ?rs @ []"
    by simp
  from decodeQuestions_wire[OF vq e1, of new_labelCache "[]"] obtain lc1 where
    dq: "decodeQuestions ?frame (length (question m)) 12 new_labelCache []
           = Some (Inr (question m, length (header_bytes (header m) @ ?qs), lc1))"
    by (auto simp: hl)
  from decodeAnswers_wire[OF vr e2, of lc1 "[]"] obtain lc2 where
    da: "decodeAnswers ?frame (length (answer m)) (length (header_bytes (header m) @ ?qs))
           lc1 [] = Some (Inr (answer m, length ?bytes, lc2))"
    by auto
  have "deserialize ?frame
      = Some (Inr \<lparr>cache = Some lc2, header = header m, question = question m,
                   answer = answer m, authority = [], additional = []\<rparr>)"
    unfolding deserialize_def
    by (simp add: copy_header_bytes nq nr dq da del: length_append)
  with s show ?thesis by simp
qed

theorem deserialize_serialize_witness:
  "valid_message
     \<lparr>cache = None,
      header = \<lparr>hb0 = 0x12, hb1 = 0x34, hb2 = 0x81, hb3 = 0, hb4 = 0, hb5 = 1,
                hb6 = 0, hb7 = 1, hb8 = 0, hb9 = 0, hb10 = 0, hb11 = 0\<rparr>,
      question = [\<lparr>QNAME = [[103, 111], [99, 111, 109]], QTYPE = (0, 1), QCLASS = (0, 1)\<rparr>],
      answer = [\<lparr>NAME = [[103, 111], [99, 111, 109]], TYPE_RR = (0, 1), CLASS = (0, 1),
                 TTL = (0, 0, 0, 60), RDLENGTH = (0, 4), RDATA = [8, 8, 8, 8]\<rparr>],
      authority = [], additional = []\<rparr>
   \<and> (\<exists>m'. deserialize
          \<lparr>elems = [0x12, 0x34, 0x81, 0, 0, 1, 0, 1, 0, 0, 0, 0,
                    2, 103, 111, 3, 99, 111, 109, 0, 0, 1, 0, 1,
                    2, 103, 111, 3, 99, 111, 109, 0, 0, 1, 0, 1, 0, 0, 0, 60, 0, 4, 8, 8, 8, 8],
           slack = [7, 7]\<rparr> = Some (Inr m')
        \<and> header m' = \<lparr>hb0 = 0x12, hb1 = 0x34, hb2 = 0x81, hb3 = 0, hb4 = 0, hb5 = 1,
                hb6 = 0, hb7 = 1, hb8 = 0, hb9 = 0, hb10 = 0, hb11 = 0\<rparr>
        \<and> question m' = [\<lparr>QNAME = [[103, 111], [99, 111, 109]], QTYPE = (0, 1),
                            QCLASS = (0, 1)\<rparr>]
        \<and> answer m' = [\<lparr>NAME = [[103, 111], [99, 111, 109]], TYPE_RR = (0, 1),
                          CLASS = (0, 1), TTL = (0, 0, 0, 60), RDLENGTH = (0, 4),
                          RDATA = [8, 8, 8, 8]\<rparr>])"
proof -
  let ?m = "\<lparr>cache = None,
      header = \<lparr>hb0 = 0x12, hb1 = 0x34, hb2 = 0x81, hb3 = 0, hb4 = 0, hb5 = 1,
                hb6 = 0, hb7 = 1, hb8 = 0, hb9 = 0, hb10 = 0, hb11 = 0\<rparr>,
      question = [\<lparr>QNAME = [[103, 111], [99, 111, 109]], QTYPE = (0, 1), QCLASS = (0, 1)\<rparr>],
      answer = [\<lparr>NAME = [[103, 111], [99, 111, 109]], TYPE_RR = (0, 1), CLASS = (0, 1),
                 TTL = (0, 0, 0, 60), RDLENGTH = (0, 4), RDATA = [8, 8, 8, 8]\<rparr>],
      authority = [], additional = []\<rparr>"
  have v: "valid_message ?m"
    by (simp add: valid_message_def valid_RR_def valid_name_def wire_labels_def
          QDCOUNT_def ANCOUNT_def Uint16_def)
  show ?thesis
    using v deserialize_serialize[OF v, of "[7, 7]"]
    by (simp add: encode_eval)
qed

section \<open>Forwarding one query per question\<close>

lemma upstreamQuery_header:
  "QDCOUNT (header (upstreamQuery ident q)) = 1"
  "ANCOUNT (header (upstreamQuery ident q)) = 0"
  "NSCOUNT (header (upstreamQuery ident q)) = 0"
  "ARCOUNT (header (upstreamQuery ident q)) = 0"
  "QR (header (upstreamQuery ident q)) = 0"
  "RD (header (upstreamQuery ident q)) = 1"
  by (simp_all add: upstreamQuery_def header_eval new_header_def QDCOUNT_def ANCOUNT_def
        NSCOUNT_def ARCOUNT_def QR_def RD_def Uint16_def)





section \<open>How far decoding moves the cursor\<close>

text \<open>
  Every decoded question takes at least 5 bytes and every decoded record at least 11, so a
  message decoded from a 512-byte buffer has at most 100 questions and 45 answers.
\<close>

lemma decodeLabels_loop_progress:
  "decodeLabels_loop frame head lc acc = Some (Inr (ls, head', lc')) \<Longrightarrow> head < head'"
proof (induction "length (elems frame) - head" arbitrary: head lc acc rule: less_induct)
  case less
  note eq = less.prems[unfolded decodeLabels_loop.simps[of frame head lc acc]]
  show ?case
  proof (cases "head < length (elems frame)")
    case False
    with eq show ?thesis by simp
  next
    case inside: True
    show ?thesis
    proof (cases "elems frame ! head = 0 \<or> elems frame ! head = 192")
      case True
      with eq inside show ?thesis
        by (auto split: if_splits option.splits)
    next
      case False
      with eq inside obtain label h2 where
        ex: "extractBytes frame (head + 1) (unat (elems frame ! head)) = Inr (label, h2)"
        and rec: "decodeLabels_loop frame h2
                    (lc\<lparr>labelMap := fmupd label head (labelMap lc),
                        positionMap := fmupd head label (positionMap lc)\<rparr>)
                    (acc @ [label]) = Some (Inr (ls, head', lc'))"
        by (auto split: sum.splits)
      from ex have h2: "head < h2"
        by (auto simp: extractBytes_def split: if_splits)
      have "h2 < length (elems frame)"
      proof (rule ccontr)
        assume "\<not> h2 < length (elems frame)"
        with rec show False
          by (subst (asm) decodeLabels_loop.simps) simp
      qed
      with h2 have "length (elems frame) - h2 < length (elems frame) - head"
        by arith
      from less.hyps[OF this rec] h2 show ?thesis by simp
    qed
  qed
qed

lemma decodeQuestion_progress:
  assumes "decodeQuestion frame head lc = Some (Inr (q, head', lc'))"
  shows "head + 5 \<le> head'" and "head' \<le> length (elems frame)"
  using assms
  by (auto simp: decodeQuestion_def decodeLabels_def extractUint16_def Let_def
      split: option.splits sum.splits prod.splits if_splits
      dest!: decodeLabels_loop_progress)

lemma decodeQuestions_progress:
  "decodeQuestions frame n head lc acc = Some (Inr (qs, head', lc'))
     \<Longrightarrow> head + 5 * n \<le> head' \<and> (0 < n \<longrightarrow> head' \<le> length (elems frame))"
proof (induction n arbitrary: head lc acc)
  case 0
  then show ?case by simp
next
  case (Suc n)
  from Suc.prems obtain q h1 lc1 where
    d: "decodeQuestion frame head lc = Some (Inr (q, h1, lc1))"
    and rest: "decodeQuestions frame n h1 lc1 (acc @ [q]) = Some (Inr (qs, head', lc'))"
    by (auto split: option.splits sum.splits prod.splits)
  from Suc.IH[OF rest] decodeQuestion_progress[OF d] show ?case
    by (cases n) (use rest in auto)
qed

lemma decodeAnswer_progress:
  assumes "decodeAnswer frame head lc = Some (Inr (a, head', lc'))"
  shows "head + 11 \<le> head'" and "head' \<le> length (elems frame) + length (slack frame)"
  using assms
  by (auto simp: decodeAnswer_def decodeLabels_def extractUint16_def extractUint32_def
        extractBytes_def Let_def
      split: option.splits sum.splits prod.splits if_splits
      dest!: decodeLabels_loop_progress)

lemma decodeAnswers_progress:
  "decodeAnswers frame n head lc acc = Some (Inr (rs, head', lc'))
     \<Longrightarrow> head + 11 * n \<le> head'
         \<and> (0 < n \<longrightarrow> head' \<le> length (elems frame) + length (slack frame))"
proof (induction n arbitrary: head lc acc)
  case 0
  then show ?case by simp
next
  case (Suc n)
  from Suc.prems obtain a h1 lc1 where
    d: "decodeAnswer frame head lc = Some (Inr (a, h1, lc1))"
    and rest: "decodeAnswers frame n h1 lc1 (acc @ [a]) = Some (Inr (rs, head', lc'))"
    by (auto split: option.splits sum.splits prod.splits)
  from Suc.IH[OF rest] decodeAnswer_progress[OF d] show ?case
    by (cases n) (use rest in auto)
qed

lemma deserialize_size:
  assumes "deserialize frame = Some (Inr m)"
    and "length (elems frame) + length (slack frame) \<le> 512"
  shows "length (question m) \<le> 100" and "length (answer m) \<le> 45"
proof -
  from assms(1) obtain h1 lc1 h2 lc2 where
    dq: "decodeQuestions frame (unat (QDCOUNT (header m))) 12 new_labelCache []
           = Some (Inr (question m, h1, lc1))"
    and da: "decodeAnswers frame (unat (ANCOUNT (header m))) h1 lc1 []
           = Some (Inr (answer m, h2, lc2))"
    by (auto simp: deserialize_def Let_def
        split: prod.splits if_splits option.splits sum.splits)
  have nq: "length (question m) = unat (QDCOUNT (header m))"
    and na: "length (answer m) = unat (ANCOUNT (header m))"
    using decodeQuestions_length[OF dq] decodeAnswers_length[OF da] by simp_all
  from decodeQuestions_progress[OF dq] decodeAnswers_progress[OF da] assms(2)
  show "length (question m) \<le> 100" and "length (answer m) \<le> 45"
    unfolding nq na by (cases "unat (QDCOUNT (header m))"; cases "unat (ANCOUNT (header m))"; simp)+
qed

lemma reply_frame_capacity:
  "length (elems (reply_frame dgram)) + length (slack (reply_frame dgram)) \<le> 512"
  by (simp add: reply_frame_def readFromUDP_def slice_to_def)

lemma request_frame_capacity:
  "length buf = 512 \<Longrightarrow>
   length (elems (request_frame buf dgram)) + length (slack (request_frame buf dgram)) \<le> 512"
  by (simp add: request_frame_def readFromUDP_def slice_to_def)

lemma forwardResolve_loop_size:
  "forwardResolve_loop qs w acc = Some (Inr answers, w')
     \<Longrightarrow> length answers \<le> length acc + 45 * length qs"
proof (induction qs arbitrary: w acc)
  case Nil
  then show ?case by simp
next
  case (Cons q qs)
  from Cons.prems obtain dgram m w2 where
    d: "deserialize (reply_frame dgram) = Some (Inr m)"
    and rest: "forwardResolve_loop qs w2 (acc @ answer m) = Some (Inr answers, w')"
    by (auto simp: Let_def reply_frame_def readFromUDP_def
        split: sum.splits exchange.splits option.splits)
  from Cons.IH[OF rest] deserialize_size(2)[OF d reply_frame_capacity]
  show ?case by simp
qed

section \<open>The counts of a response\<close>

lemma responseQuestions_length:
  "responseQuestions m n i acc = Inr qs \<Longrightarrow> length qs = length acc + n"
proof (induction n arbitrary: i acc)
  case 0
  then show ?case by simp
next
  case (Suc n)
  then show ?case by (fastforce split: if_splits)
qed

lemma staticAnswers_length:
  "staticAnswers m n i acc = Inr rs \<Longrightarrow> length rs = length acc + n"
proof (induction n arbitrary: i acc)
  case 0
  then show ?case by simp
next
  case (Suc n)
  then show ?case by (fastforce split: if_splits)
qed

lemma counts_setANCOUNT:
  "QDCOUNT (setANCOUNT v h) = QDCOUNT h"
  "NSCOUNT (setANCOUNT v h) = NSCOUNT h"
  "ARCOUNT (setANCOUNT v h) = ARCOUNT h"
  by (simp_all add: setANCOUNT_def QDCOUNT_def NSCOUNT_def ARCOUNT_def)

lemma unat_uint16_of_nat: "n < 65536 \<Longrightarrow> unat (of_nat n :: uint16) = n"
  by (simp add: unat_of_nat)

lemma createResponseMessage_shape:
  assumes "createResponseMessage m = Inr r"
  shows "length (question r) = unat (QDCOUNT (header m))"
    and "QDCOUNT (header r) = QDCOUNT (header m)"
    and "answer r = []" and "authority r = []" and "additional r = []"
    and "NSCOUNT (header r) = NSCOUNT (header m)"
    and "ARCOUNT (header r) = ARCOUNT (header m)"
proof -
  from assms obtain qs where
    qs: "responseQuestions m (unat (QDCOUNT (header m))) 0 [] = Inr qs"
    and r: "r = \<lparr>cache = None,
          header = setQDCOUNT (of_nat (length qs))
            (if OPCODE (header m) = QUERY
             then setRCODE QUERY (setZ 0 (setRA 0 (setTC 0 (setAA 0 (setQR 1
                    (fst (copy_header new_header (header_bytes (header m)))))))))
             else setRCODE UNIMPLEMENTED (setZ 0 (setRA 0 (setTC 0 (setAA 0 (setQR 1
                    (fst (copy_header new_header (header_bytes (header m)))))))))),
          question = qs, answer = [], authority = [], additional = []\<rparr>"
    by (auto simp: createResponseMessage_def Let_def split: sum.splits)
  have n: "length qs = unat (QDCOUNT (header m))"
    using responseQuestions_length[OF qs] by simp
  show "length (question r) = unat (QDCOUNT (header m))"
    by (simp add: r n)
  show "QDCOUNT (header r) = QDCOUNT (header m)"
    by (simp add: r n QDCOUNT_setQDCOUNT)
  show "answer r = []" and "authority r = []" and "additional r = []"
    by (simp_all add: r)
  show "NSCOUNT (header r) = NSCOUNT (header m)"
    by (simp add: r NSCOUNT_def setQDCOUNT_def setRCODE_def setZ_def setRA_def setTC_def
          setAA_def setQR_def copy_header_def copy_cell_def header_bytes_def)
  show "ARCOUNT (header r) = ARCOUNT (header m)"
    by (simp add: r ARCOUNT_def setQDCOUNT_def setRCODE_def setZ_def setRA_def setTC_def
          setAA_def setQR_def copy_header_def copy_cell_def header_bytes_def)
qed

lemma addStaticAnswer_shape:
  assumes "addStaticAnswer r = Inr r'"
  shows "question r' = question r"
    and "length (answer r') = length (answer r) + unat (QDCOUNT (header r))"
    and "header r' = setANCOUNT (of_nat (length (answer r'))) (header r)"
    and "authority r' = authority r" and "additional r' = additional r"
  using assms
  by (auto simp: addStaticAnswer_def split: sum.splits dest!: staticAnswers_length)

lemma main_response_counts:
  assumes cap: "length (elems frame) + length (slack frame) \<le> 512"
    and run: "main_response forwarding w frame = Some (Inr response, w')"
  shows "\<exists>request. deserialize frame = Some (Inr request)
           \<and> unat (QDCOUNT (header response)) = length (question response)
           \<and> unat (ANCOUNT (header response)) = length (answer response)
           \<and> authority response = [] \<and> additional response = []
           \<and> NSCOUNT (header response) = NSCOUNT (header request)
           \<and> ARCOUNT (header response) = ARCOUNT (header request)"
proof -
  from run obtain request r0 where
    d: "deserialize frame = Some (Inr request)"
    and c: "createResponseMessage request = Inr r0"
    and alt: "(forwarding \<and> (\<exists>answers. forwardResolve (question r0) w = Some (Inr answers, w')
                 \<and> response = r0\<lparr>answer := answers,
                       header := setANCOUNT (of_nat (length answers)) (header r0)\<rparr>))
              \<or> (\<not> forwarding \<and> addStaticAnswer r0 = Inr response)"
    by (auto simp: main_response_def split: option.splits sum.splits prod.splits if_splits)
  note s = createResponseMessage_shape[OF c]
  have nq: "length (question r0) \<le> 100"
    using deserialize_size(1)[OF d cap] deserialize_counts(1)[OF d] s(1) by simp
  have q: "unat (QDCOUNT (header r0)) = length (question r0)"
    using s(1,2) by simp
  from alt show ?thesis
  proof (elim disjE conjE exE)
    fix answers
    assume f: "forwardResolve (question r0) w = Some (Inr answers, w')"
      and r: "response = r0\<lparr>answer := answers,
                header := setANCOUNT (of_nat (length answers)) (header r0)\<rparr>"
    from forwardResolve_loop_size[OF f[unfolded forwardResolve_def]] nq
    have "length answers < 65536" by simp
    then have "unat (ANCOUNT (header response)) = length (answer response)"
      by (simp add: r ANCOUNT_setANCOUNT unat_uint16_of_nat)
    with d q s show ?thesis
      by (simp add: r counts_setANCOUNT)
  next
    assume a: "addStaticAnswer r0 = Inr response"
    note t = addStaticAnswer_shape[OF a]
    have "length (answer response) < 65536"
      using t(2) s(3) q nq by simp
    then have "unat (ANCOUNT (header response)) = length (answer response)"
      by (simp add: t(3) ANCOUNT_setANCOUNT unat_uint16_of_nat)
    with d q s t show ?thesis
      by (simp add: counts_setANCOUNT)
  qed
qed

text \<open>
  C5, as amended: for every response the server serializes, of a request read into its
  512-byte buffer, in static or in forwarding mode, the output is the header followed by
  the encoded questions and the encoded answers of the response and nothing else;
  \<open>QDCOUNT\<close> and \<open>ANCOUNT\<close> are the numbers of these questions and answers; no authority
  or additional record is serialized, and \<open>NSCOUNT\<close> and \<open>ARCOUNT\<close> are those of the
  request header, which the response header was copied from. Every query built for the
  upstream resolver has the counts 1, 0, 0, 0 with one question and no records.
\<close>

theorem serialized_response_counts:
  assumes "length buf = 512"
    and "main_step forwarding w buf dgram = Some (Inr out, w')"
  shows "(\<exists>request response.
            deserialize (request_frame buf dgram) = Some (Inr request)
          \<and> main_response forwarding w (request_frame buf dgram) = Some (Inr response, w')
          \<and> out = header_bytes (header response)
                    @ concat (map wire_question (question response))
                    @ concat (map wire_RR (answer response))
          \<and> unat (QDCOUNT (header response)) = length (question response)
          \<and> unat (ANCOUNT (header response)) = length (answer response)
          \<and> NSCOUNT (header response) = NSCOUNT (header request)
          \<and> ARCOUNT (header response) = ARCOUNT (header request))
       \<and> QDCOUNT (header (upstreamQuery ident q)) = 1
       \<and> question (upstreamQuery ident q) = [q]
       \<and> ANCOUNT (header (upstreamQuery ident q)) = 0
       \<and> answer (upstreamQuery ident q) = []
       \<and> NSCOUNT (header (upstreamQuery ident q)) = 0
       \<and> authority (upstreamQuery ident q) = []
       \<and> ARCOUNT (header (upstreamQuery ident q)) = 0
       \<and> additional (upstreamQuery ident q) = []"
proof -
  from assms(2) obtain response where
    run: "main_response forwarding w (request_frame buf dgram) = Some (Inr response, w')"
    and out: "serialize response = Inr out"
    by (auto simp: main_step_def request_frame_def
        split: prod.splits option.splits sum.splits)
  from main_response_counts[OF request_frame_capacity[OF assms(1)] run]
  obtain request where
    "deserialize (request_frame buf dgram) = Some (Inr request)"
    "unat (QDCOUNT (header response)) = length (question response)"
    "unat (ANCOUNT (header response)) = length (answer response)"
    "NSCOUNT (header response) = NSCOUNT (header request)"
    "ARCOUNT (header response) = ARCOUNT (header request)"
    by blast
  with run serialize_Inr[OF out] show ?thesis
    by (auto simp: upstreamQuery_header) (simp_all add: upstreamQuery_def)
qed

theorem serialized_response_counts_witness:
  "length (replicate 512 (0 :: byte)) = 512
   \<and> main_step False
        \<lparr>peer = (\<lambda>k b. WriteFails), rnd = (\<lambda>k. 0), draws = 0, writes = 0, sent = []\<rparr>
        (replicate 512 0) [0, 1, 1, 0, 0, 1, 0, 0, 0, 0, 0, 0, 1, 97, 0, 0, 1, 0, 1]
      = Some (Inr [0, 1, 129, 0, 0, 1, 0, 1, 0, 0, 0, 0, 1, 97, 0, 0, 1, 0, 1,
                   1, 97, 0, 0, 1, 0, 1, 0, 0, 0, 60, 0, 4, 8, 8, 8, 8],
              \<lparr>peer = (\<lambda>k b. WriteFails), rnd = (\<lambda>k. 0), draws = 0, writes = 0, sent = []\<rparr>)
   \<and> (\<exists>request response.
         deserialize (request_frame (replicate 512 0)
             [0, 1, 1, 0, 0, 1, 0, 0, 0, 0, 0, 0, 1, 97, 0, 0, 1, 0, 1]) = Some (Inr request)
       \<and> main_response False
            \<lparr>peer = (\<lambda>k b. WriteFails), rnd = (\<lambda>k. 0), draws = 0, writes = 0, sent = []\<rparr>
            (request_frame (replicate 512 0)
               [0, 1, 1, 0, 0, 1, 0, 0, 0, 0, 0, 0, 1, 97, 0, 0, 1, 0, 1])
           = Some (Inr response,
               \<lparr>peer = (\<lambda>k b. WriteFails), rnd = (\<lambda>k. 0), draws = 0, writes = 0, sent = []\<rparr>)
       \<and> [0, 1, 129, 0, 0, 1, 0, 1, 0, 0, 0, 0, 1, 97, 0, 0, 1, 0, 1,
          1, 97, 0, 0, 1, 0, 1, 0, 0, 0, 60, 0, 4, 8, 8, 8, 8]
           = header_bytes (header response) @ concat (map wire_question (question response))
               @ concat (map wire_RR (answer response))
       \<and> unat (QDCOUNT (header response)) = length (question response)
       \<and> unat (ANCOUNT (header response)) = length (answer response)
       \<and> NSCOUNT (header response) = NSCOUNT (header request)
       \<and> ARCOUNT (header response) = ARCOUNT (header request))"
proof -
  let ?w = "\<lparr>peer = (\<lambda>k b. WriteFails), rnd = (\<lambda>k. 0), draws = 0, writes = 0, sent = []\<rparr>"
  have len: "length (replicate 512 (0 :: byte)) = 512" by simp
  have run: "main_step False ?w (replicate 512 0)
        [0, 1, 1, 0, 0, 1, 0, 0, 0, 0, 0, 0, 1, 97, 0, 0, 1, 0, 1]
      = Some (Inr [0, 1, 129, 0, 0, 1, 0, 1, 0, 0, 0, 0, 1, 97, 0, 0, 1, 0, 1,
                   1, 97, 0, 0, 1, 0, 1, 0, 0, 0, 60, 0, 4, 8, 8, 8, 8], ?w)"
    by (simp add: server_eval decode_eval response_eval header_eval encode_eval)
  note concl = serialized_response_counts[OF len run, of 0 new_question, THEN conjunct1]
  show ?thesis
    by (rule conjI[OF len], rule conjI[OF run], rule concl)
qed

text \<open>
  The claim as stated fails for \<open>ARCOUNT\<close> (and in the same way for \<open>NSCOUNT\<close>): a request
  with \<open>ARCOUNT = 1\<close>, as a client that attaches an OPT record sends it, gets a response
  whose header still says \<open>ARCOUNT = 1\<close>, while the response has no additional record and
  the output ends with its one answer.
\<close>

theorem response_ARCOUNT_counterexample:
  "main_response False
     \<lparr>peer = (\<lambda>k b. WriteFails), rnd = (\<lambda>k. 0), draws = 0, writes = 0, sent = []\<rparr>
     (request_frame (replicate 512 0)
        [0, 1, 1, 0, 0, 1, 0, 0, 0, 0, 0, 1, 1, 97, 0, 0, 1, 0, 1])
   = Some (Inr \<lparr>cache = None,
                 header = \<lparr>hb0 = 0, hb1 = 1, hb2 = 129, hb3 = 0, hb4 = 0, hb5 = 1,
                           hb6 = 0, hb7 = 1, hb8 = 0, hb9 = 0, hb10 = 0, hb11 = 1\<rparr>,
                 question = [\<lparr>QNAME = [[97]], QTYPE = (0, 1), QCLASS = (0, 1)\<rparr>],
                 answer = [\<lparr>NAME = [[97]], TYPE_RR = (0, 1), CLASS = (0, 1),
                            TTL = (0, 0, 0, 60), RDLENGTH = (0, 4), RDATA = [8, 8, 8, 8]\<rparr>],
                 authority = [], additional = []\<rparr>,
           \<lparr>peer = (\<lambda>k b. WriteFails), rnd = (\<lambda>k. 0), draws = 0, writes = 0, sent = []\<rparr>)
   \<and> ARCOUNT \<lparr>hb0 = 0, hb1 = 1, hb2 = 129, hb3 = 0, hb4 = 0, hb5 = 1,
               hb6 = 0, hb7 = 1, hb8 = 0, hb9 = 0, hb10 = 0, hb11 = 1\<rparr> = 1
   \<and> map_option fst (main_step False
        \<lparr>peer = (\<lambda>k b. WriteFails), rnd = (\<lambda>k. 0), draws = 0, writes = 0, sent = []\<rparr>
        (replicate 512 0) [0, 1, 1, 0, 0, 1, 0, 0, 0, 0, 0, 1, 1, 97, 0, 0, 1, 0, 1])
      = Some (Inr [0, 1, 129, 0, 0, 1, 0, 1, 0, 0, 0, 1, 1, 97, 0, 0, 1, 0, 1,
                   1, 97, 0, 0, 1, 0, 1, 0, 0, 0, 60, 0, 4, 8, 8, 8, 8])"
  by (simp add: server_eval request_frame_def decode_eval response_eval header_eval
        encode_eval ARCOUNT_def)

section \<open>Decoding always returns\<close>

text \<open>
  The loops of the decoder are defined as partial functions. They return on every frame:
  a message, an error or a panic, never \<open>None\<close>. So do \<^verbatim>\<open>forwardResolve\<close> (given that the
  upstream connection answers or fails) and a turn of the server loop.
\<close>

lemma decodeLabels_loop_returns:
  "\<exists>r. decodeLabels_loop frame head lc acc = Some r"
proof (induction "length (elems frame) - head" arbitrary: head lc acc rule: less_induct)
  case less
  show ?case
  proof (cases "head < length (elems frame)")
    case False
    then show ?thesis by (subst decodeLabels_loop.simps) simp
  next
    case inside: True
    consider (zero) "elems frame ! head = 0"
      | (pointer) "elems frame ! head \<noteq> 0" "elems frame ! head = 192"
      | (literal) "elems frame ! head \<noteq> 0" "elems frame ! head \<noteq> 192"
      by blast
    then show ?thesis
    proof cases
      case zero
      with inside show ?thesis by (subst decodeLabels_loop.simps) simp
    next
      case pointer
      obtain refs where
        "allSubsequentLabels lc (unat (elems frame ! (head + 1))) = Some refs"
        using allSubsequentLabels_loop_returns unfolding allSubsequentLabels_def by blast
      with inside pointer show ?thesis by (subst decodeLabels_loop.simps) simp
    next
      case literal
      show ?thesis
      proof (cases "extractBytes frame (head + 1) (unat (elems frame ! head))")
        case (Inl e)
        with inside literal show ?thesis by (subst decodeLabels_loop.simps) simp
      next
        case (Inr p)
        obtain label h2 where p: "p = (label, h2)" by (cases p)
        from Inr p have h2: "head < h2"
          by (auto simp: extractBytes_def split: if_splits)
        have "\<exists>r. decodeLabels_loop frame h2
                  (lc\<lparr>labelMap := fmupd label head (labelMap lc),
                      positionMap := fmupd head label (positionMap lc)\<rparr>)
                  (acc @ [label]) = Some r"
        proof (cases "h2 < length (elems frame)")
          case True
          with h2 have "length (elems frame) - h2 < length (elems frame) - head" by arith
          then show ?thesis by (rule less.hyps)
        next
          case False
          then show ?thesis by (subst decodeLabels_loop.simps) simp
        qed
        with inside literal Inr p show ?thesis
          by (subst decodeLabels_loop.simps) simp
      qed
    qed
  qed
qed

lemma decodeQuestion_returns: "\<exists>r. decodeQuestion frame head lc = Some r"
proof -
  obtain r where "decodeLabels frame head lc = Some r"
    using decodeLabels_loop_returns unfolding decodeLabels_def by blast
  then show ?thesis
    by (simp add: decodeQuestion_def split: sum.splits prod.splits)
qed

lemma decodeQuestions_returns: "\<exists>r. decodeQuestions frame n head lc acc = Some r"
proof (induction n arbitrary: head lc acc)
  case 0
  show ?case by simp
next
  case (Suc n)
  obtain r where "decodeQuestion frame head lc = Some r"
    using decodeQuestion_returns by blast
  with Suc.IH show ?case
    by (simp split: sum.splits prod.splits)
qed

lemma decodeAnswer_returns: "\<exists>r. decodeAnswer frame head lc = Some r"
proof -
  obtain r where "decodeLabels frame head lc = Some r"
    using decodeLabels_loop_returns unfolding decodeLabels_def by blast
  then show ?thesis
    by (simp add: decodeAnswer_def split: sum.splits prod.splits)
qed

lemma decodeAnswers_returns: "\<exists>r. decodeAnswers frame n head lc acc = Some r"
proof (induction n arbitrary: head lc acc)
  case 0
  show ?case by simp
next
  case (Suc n)
  obtain r where "decodeAnswer frame head lc = Some r"
    using decodeAnswer_returns by blast
  with Suc.IH show ?case
    by (simp split: sum.splits prod.splits)
qed

lemma deserialize_returns: "\<exists>r. deserialize frame = Some r"
proof -
  obtain hdr copied where c: "copy_header new_header (elems frame) = (hdr, copied)"
    by (cases "copy_header new_header (elems frame)")
  obtain rq where q: "decodeQuestions frame (unat (QDCOUNT hdr)) 12 new_labelCache [] = Some rq"
    using decodeQuestions_returns by blast
  show ?thesis
  proof (cases rq)
    case (Inl e)
    with c q show ?thesis by (simp add: deserialize_def)
  next
    case (Inr t)
    obtain questions head lc1 where t: "t = (questions, head, lc1)" by (cases t)
    obtain ra where "decodeAnswers frame (unat (ANCOUNT hdr)) head lc1 [] = Some ra"
      using decodeAnswers_returns by blast
    with c q Inr t show ?thesis
      by (simp add: deserialize_def split: sum.splits prod.splits)
  qed
qed

lemma forwardResolve_loop_returns: "\<exists>r. forwardResolve_loop qs w acc = Some r"
proof (induction qs arbitrary: w acc)
  case Nil
  show ?case by simp
next
  case (Cons q qs)
  show ?case
  proof (cases "serialize (upstreamQuery (of_nat (rnd w (draws w) mod 65535)) q)")
    case (Inl e)
    then show ?thesis by (simp add: Let_def)
  next
    case (Inr serialized)
    show ?thesis
    proof (cases "peer w (writes w) serialized")
      case WriteFails
      with Inr show ?thesis by (simp add: Let_def)
    next
      case ReadFails
      with Inr show ?thesis by (simp add: Let_def)
    next
      case (Reply dgram)
      obtain r where "deserialize (reply_frame dgram) = Some r"
        using deserialize_returns by blast
      then have "deserialize (slice_to (take 512 dgram @ replicate (512 - length dgram) 0)
                    (min 512 (length dgram))) = Some r"
        by (simp add: reply_frame_def readFromUDP_def)
      with Inr Reply Cons.IH show ?thesis
        by (simp add: Let_def readFromUDP_def split: sum.splits)
    qed
  qed
qed

lemma main_step_returns: "\<exists>r. main_step forwarding w buf dgram = Some r"
proof -
  obtain r where d: "deserialize (request_frame buf dgram) = Some r"
    using deserialize_returns by blast
  have f: "\<And>qs. \<exists>r. forwardResolve qs w = Some r"
    unfolding forwardResolve_def by (rule forwardResolve_loop_returns)
  show ?thesis
  proof (cases r)
    case (Inl e)
    with d show ?thesis
      by (simp add: main_step_def main_response_def request_frame_def split: prod.splits)
  next
    case (Inr incomingMessage)
    show ?thesis
    proof (cases "createResponseMessage incomingMessage")
      case (Inl e)
      with d Inr show ?thesis
        by (simp add: main_step_def main_response_def request_frame_def split: prod.splits)
    next
      case created: (Inr response)
      obtain rf where "forwardResolve (question response) w = Some rf"
        using f by blast
      with d Inr created show ?thesis
        by (auto simp: main_step_def main_response_def request_frame_def
            split: prod.splits sum.splits)
    qed
  qed
qed

end
